theory Spec2Isabelle
  imports Main "HOL-Library.Word"
begin

unbundle bit_operations_syntax

section \<open>JavaScript numbers, strings and the character constants\<close>

text \<open>
  The scanner reads UTF-16 code units with \<^verbatim>\<open>String.prototype.charCodeAt\<close>, which
  yields \<^verbatim>\<open>NaN\<close> for an index outside the string. A number held by the scanner is
  therefore either \<open>NaN\<close> or a code unit / code point (a natural number far below
  \<open>2 ^ 31\<close>, so that the coercion to a 32-bit integer done by the bitwise operators
  is the identity on it).
\<close>

datatype number = NaN | Num nat

definition charCodeAt :: "nat list \<Rightarrow> nat \<Rightarrow> number" where
  "charCodeAt s i = (if i < length s then Num (s ! i) else NaN)"

text \<open>The operand of a bitwise operator (and of \<^verbatim>\<open>x | 0\<close>): \<open>NaN\<close> becomes 0.\<close>

definition toInt32 :: "number \<Rightarrow> nat" where
  "toInt32 n = (case n of NaN \<Rightarrow> 0 | Num c \<Rightarrow> c)"

text \<open>Relational operators: every comparison with \<open>NaN\<close> is false.\<close>

definition num_le :: "number \<Rightarrow> nat \<Rightarrow> bool" where
  "num_le n k = (case n of NaN \<Rightarrow> False | Num c \<Rightarrow> c \<le> k)"

definition num_ge :: "number \<Rightarrow> nat \<Rightarrow> bool" where
  "num_ge n k = (case n of NaN \<Rightarrow> False | Num c \<Rightarrow> k \<le> c)"

text \<open>\<^verbatim>\<open>s.slice(a, b)\<close> for non-negative \<open>a\<close> and \<open>b\<close>.\<close>

definition slice :: "nat list \<Rightarrow> nat \<Rightarrow> nat \<Rightarrow> nat list" where
  "slice s a b = take (b - a) (drop a s)"

text \<open>
  Modelled from the spec: the enumeration \<^verbatim>\<open>Chars\<close> (chars.ts) is not among the
  sources; each member stands for the code point that its name denotes.
\<close>

abbreviation (input) Chars_LineFeed :: nat where "Chars_LineFeed \<equiv> 10"
abbreviation (input) Chars_CarriageReturn :: nat where "Chars_CarriageReturn \<equiv> 13"
abbreviation (input) Chars_Exclamation :: nat where "Chars_Exclamation \<equiv> 33"
abbreviation (input) Chars_Ampersand :: nat where "Chars_Ampersand \<equiv> 38"
abbreviation (input) Chars_Asterisk :: nat where "Chars_Asterisk \<equiv> 42"
abbreviation (input) Chars_Plus :: nat where "Chars_Plus \<equiv> 43"
abbreviation (input) Chars_Hyphen :: nat where "Chars_Hyphen \<equiv> 45"
abbreviation (input) Chars_Period :: nat where "Chars_Period \<equiv> 46"
abbreviation (input) Chars_Slash :: nat where "Chars_Slash \<equiv> 47"
abbreviation (input) Chars_Zero :: nat where "Chars_Zero \<equiv> 48"
abbreviation (input) Chars_Nine :: nat where "Chars_Nine \<equiv> 57"
abbreviation (input) Chars_LessThan :: nat where "Chars_LessThan \<equiv> 60"
abbreviation (input) Chars_EqualSign :: nat where "Chars_EqualSign \<equiv> 61"
abbreviation (input) Chars_GreaterThan :: nat where "Chars_GreaterThan \<equiv> 62"
abbreviation (input) Chars_QuestionMark :: nat where "Chars_QuestionMark \<equiv> 63"
abbreviation (input) Chars_LeftBracket :: nat where "Chars_LeftBracket \<equiv> 91"
abbreviation (input) Chars_Backslash :: nat where "Chars_Backslash \<equiv> 92"
abbreviation (input) Chars_RightBracket :: nat where "Chars_RightBracket \<equiv> 93"
abbreviation (input) Chars_LowerG :: nat where "Chars_LowerG \<equiv> 103"
abbreviation (input) Chars_LowerI :: nat where "Chars_LowerI \<equiv> 105"
abbreviation (input) Chars_LowerM :: nat where "Chars_LowerM \<equiv> 109"
abbreviation (input) Chars_LowerS :: nat where "Chars_LowerS \<equiv> 115"
abbreviation (input) Chars_LowerU :: nat where "Chars_LowerU \<equiv> 117"
abbreviation (input) Chars_LowerY :: nat where "Chars_LowerY \<equiv> 121"
abbreviation (input) Chars_VerticalBar :: nat where "Chars_VerticalBar \<equiv> 124"
abbreviation (input) Chars_NextLine :: nat where "Chars_NextLine \<equiv> 0x85"
abbreviation (input) Chars_NonBreakingSpace :: nat where "Chars_NonBreakingSpace \<equiv> 0xA0"
abbreviation (input) Chars_Ogham :: nat where "Chars_Ogham \<equiv> 0x1680"
abbreviation (input) Chars_EnQuad :: nat where "Chars_EnQuad \<equiv> 0x2000"
abbreviation (input) Chars_ZeroWidthSpace :: nat where "Chars_ZeroWidthSpace \<equiv> 0x200B"
abbreviation (input) Chars_LineSeparator :: nat where "Chars_LineSeparator \<equiv> 0x2028"
abbreviation (input) Chars_ParagraphSeparator :: nat where "Chars_ParagraphSeparator \<equiv> 0x2029"
abbreviation (input) Chars_NarrowNoBreakSpace :: nat where "Chars_NarrowNoBreakSpace \<equiv> 0x202F"
abbreviation (input) Chars_MathematicalSpace :: nat where "Chars_MathematicalSpace \<equiv> 0x205F"
abbreviation (input) Chars_IdeographicSpace :: nat where "Chars_IdeographicSpace \<equiv> 0x3000"
abbreviation (input) Chars_ZeroWidthNoBreakSpace :: nat where "Chars_ZeroWidthNoBreakSpace \<equiv> 0xFEFF"
abbreviation (input) Chars_ByteOrderMark :: nat where "Chars_ByteOrderMark \<equiv> 0xFEFF"

section \<open>Tokens, context, diagnostics and the parser state\<close>

text \<open>
  The members of \<^verbatim>\<open>Token\<close> (token.ts, not among the sources) that scan.ts and regexp.ts
  name; \<open>OtherToken\<close> stands for the rest of the enumeration (keywords and literals
  produced by the scanners that are not among the sources).
\<close>

datatype (plugins only: code) Token =
    Error | RightBrace | LeftBrace | Comma | Colon | Complement | LeftParen | RightParen
  | Semicolon | LeftBracket | RightBracket | WhiteSpace | CarriageReturn | LineFeed
  | IdentifierOrKeyword | Identifier | StringLiteral | NumericLiteral | LeadingZero
  | UnicodeEscapeIdStart | TemplateTail | Period | Ellipsis
  | LessThan | ShiftLeftAssign | ShiftLeft | LessThanOrEqual
  | QuestionMark | Coalesce | QuestionMarkPeriod
  | Assign | StrictEqual | LooseEqual | Arrow
  | Negate | LooseNotEqual | StrictNotEqual
  | Modulo | ModuloAssign
  | Multiply | MultiplyAssign | Exponentiate | ExponentiateAssign
  | BitwiseXor | BitwiseXorAssign
  | Add | Increment | AddAssign
  | Subtract | Decrement | SubtractAssign
  | Divide | DivideAssign
  | BitwiseOr | LogicalOr | BitwiseOrAssign
  | GreaterThan | GreaterThanOrEqual | LogicalShiftRight | LogicalShiftRightAssign
  | ShiftRightAssign | ShiftRight
  | BitwiseAnd | LogicalAnd | BitwiseAndAssign
  | PrivateField | RegularExpression | EndOfSource
  | OtherToken nat

text \<open>
  The context is a bit set; \<^verbatim>\<open>context & Context.Module\<close> is membership of \<open>Module\<close>.
\<close>

datatype ContextFlag =
  Strict | Module | AllowRegExp | OptionsNext | OptionsRaw | DisableWebCompat | InTemplate

type_synonym Context = "ContextFlag set"

datatype Errors =
    UnterminatedString | UnterminatedRegExp | UnterminatedComment | UnterminatedTemplate
  | InvalidCharacter | InvalidSMPCharacter | InvalidUnicodeEscape | InvalidCodePoint
  | InvalidHexEscape | StrictOctalLiteral | StrictOctalEscape | DuplicateRegExpFlag
  | UnexpectedTokenRegExpFlag | HtmlCommentInWebCompat | IdentifierAfterNumericLiteral
  | ContinuousNumericSeparator | TrailingNumericSeparator | InvalidBigInt | ExpectedHexDigits

datatype TokenValue =
  ValNull | ValString "nat list" | ValRegExp "nat list" "nat list" | ValToken Token

record ParserState =
  source :: "nat list"
  length' :: nat
  index :: nat
  nextCodePoint :: number
  line :: nat
  column :: nat
  tokenPos :: nat
  startPos :: nat
  precedingLineBreak :: nat
  token :: Token
  tokenValue :: TokenValue
  tokenRaw :: "nat list option"
  tokenRegExp :: "(nat list \<times> nat list) option"
  diagnostics :: "(Errors \<times> string list) list"

text \<open>
  Modelled from the spec: \<^verbatim>\<open>report\<close> (errors.ts) is not among the sources. The spec
  has every error recorded in the list of diagnostics owned by the state; a diagnostic
  is kept here as its error kind with its format arguments.
\<close>

definition report :: "ParserState \<Rightarrow> Context \<Rightarrow> Errors \<Rightarrow> string list \<Rightarrow> ParserState" where
  "report p ctx e args = p\<lparr>diagnostics := diagnostics p @ [(e, args)]\<rparr>"

text \<open>
  Modelled from the spec: the constructor of the state (parser.ts) is not among the
  sources. A fresh state stands at offset 0, line 1, column 0, with the first code unit
  cached and no diagnostics.
\<close>

definition create :: "nat list \<Rightarrow> ParserState" where
  "create src =
     \<lparr> source = src, length' = length src, index = 0, nextCodePoint = charCodeAt src 0,
       line = 1, column = 0, tokenPos = 0, startPos = 0, precedingLineBreak = 0,
       token = EndOfSource, tokenValue = ValNull, tokenRaw = None, tokenRegExp = None,
       diagnostics = [] \<rparr>"

text \<open>
  The functions and tables that scan.ts, regexp.ts and common.ts import from files that
  are not among the sources. They are parameters of the model: every result below holds
  for whatever they compute (or under the hypotheses it states about them). Each
  scanner returns its token with the state it leaves; \<open>unicodeLookup\<close> is the table of
  32-bit words, 0 outside its range (\<^verbatim>\<open>undefined >>> n\<close> is 0); \<open>hostRegExp pattern
  flags\<close> tells whether the host's \<^verbatim>\<open>RegExp\<close> constructor accepts the pattern with the
  flags.
\<close>

record Collaborators =
  scanIdentifierOrKeyword :: "ParserState \<Rightarrow> Context \<Rightarrow> nat \<Rightarrow> Token \<times> ParserState"
  scanIdentifierSlowPath :: "ParserState \<Rightarrow> Context \<Rightarrow> nat list \<Rightarrow> nat \<Rightarrow> Token \<times> ParserState"
  scanUnicodeEscapeIdStart :: "ParserState \<Rightarrow> Context \<Rightarrow> Token \<times> ParserState"
  scanStringLiteral :: "ParserState \<Rightarrow> Context \<Rightarrow> number \<Rightarrow> Token \<times> ParserState"
  scanTemplate :: "ParserState \<Rightarrow> Context \<Rightarrow> Token \<times> ParserState"
  scanNumber :: "ParserState \<Rightarrow> Context \<Rightarrow> nat \<Rightarrow> nat \<Rightarrow> Token \<times> ParserState"
  scanLeadingZero :: "ParserState \<Rightarrow> Context \<Rightarrow> number \<Rightarrow> Token \<times> ParserState"
  skipSingleLineComment :: "ParserState \<Rightarrow> ParserState"
  skipMultiLineComment :: "ParserState \<Rightarrow> Context \<Rightarrow> int \<times> ParserState"
  isIdentifierPart :: "number \<Rightarrow> bool"
  unicodeLookup :: "nat \<Rightarrow> 32 word"
  hostRegExp :: "nat list \<Rightarrow> nat list \<Rightarrow> bool"

section \<open>scanner/common.ts\<close>

text \<open>
  \<^verbatim>\<open>advance\<close> returns the code unit it caches: the value of the call is
  \<open>nextCodePoint (advance p)\<close>.
\<close>

definition advance :: "ParserState \<Rightarrow> ParserState" where
  "advance p =
     p\<lparr>column := column p + 1, index := index p + 1,
       nextCodePoint := charCodeAt (source p) (index p + 1)\<rparr>"

text \<open>
  The test \<^verbatim>\<open>(unicodeLookup[(c >>> 5) + base] >>> c) & 31 & 1\<close>, which scan.ts and
  common.ts write inline; \<^verbatim>\<open>>>> c\<close> shifts by \<open>c mod 32\<close>.
\<close>

definition lookupBit :: "Collaborators \<Rightarrow> nat \<Rightarrow> nat \<Rightarrow> 32 word" where
  "lookupBit E c base = drop_bit (c mod 32) (unicodeLookup E (drop_bit 5 c + base)) AND 31 AND 1"

datatype Escape = Escape_0 | Escape_1 | Escape_InvalidCodePoint

definition consumeMultiUnitCodePoint ::
  "Collaborators \<Rightarrow> ParserState \<Rightarrow> number \<Rightarrow> Escape \<times> ParserState" where
  "consumeMultiUnitCodePoint E p hi =
     (if toInt32 hi AND 0xfc00 \<noteq> 0xd800 then (Escape_0, p)
      else
        let lo = charCodeAt (source p) (index p + 1) in
        if toInt32 lo AND 0xfc00 \<noteq> 0xdc00 then (Escape_0, p)
        else
          let hi' = 0x10000 + push_bit 10 (toInt32 hi AND 0x3ff) + (toInt32 lo AND 0x3ff);
              p1 = p\<lparr>nextCodePoint := Num hi'\<rparr>
          in if lookupBit E hi' 0 = 0 then (Escape_InvalidCodePoint, p1)
             else (Escape_1, p1\<lparr>index := index p1 + 1\<rparr>))"

definition isExoticECMAScriptWhitespace :: "number \<Rightarrow> bool" where
  "isExoticECMAScriptWhitespace code =
     (code = Num Chars_NonBreakingSpace \<or>
      code = Num Chars_ZeroWidthNoBreakSpace \<or>
      code = Num Chars_NextLine \<or>
      code = Num Chars_Ogham \<or>
      (num_ge code Chars_EnQuad \<and> num_le code Chars_ZeroWidthSpace) \<or>
      code = Num Chars_NarrowNoBreakSpace \<or>
      code = Num Chars_MathematicalSpace \<or>
      code = Num Chars_IdeographicSpace \<or>
      code = Num Chars_ByteOrderMark)"

section \<open>scanner/regexp.ts\<close>

text \<open>The bits of \<^verbatim>\<open>RegexState\<close> and \<^verbatim>\<open>RegexFlags\<close>, as the source writes them.\<close>

abbreviation (input) RegexState_Empty :: "32 word" where "RegexState_Empty \<equiv> 0"
abbreviation (input) RegexState_Escape :: "32 word" where "RegexState_Escape \<equiv> 0x1"
abbreviation (input) RegexState_Class :: "32 word" where "RegexState_Class \<equiv> 0x2"

abbreviation (input) RegexFlags_Empty :: "32 word" where "RegexFlags_Empty \<equiv> 0"
abbreviation (input) RegexFlags_IgnoreCase :: "32 word" where "RegexFlags_IgnoreCase \<equiv> 1"
abbreviation (input) RegexFlags_Global :: "32 word" where "RegexFlags_Global \<equiv> 2"
abbreviation (input) RegexFlags_Multiline :: "32 word" where "RegexFlags_Multiline \<equiv> 4"
abbreviation (input) RegexFlags_Unicode :: "32 word" where "RegexFlags_Unicode \<equiv> 16"
abbreviation (input) RegexFlags_Sticky :: "32 word" where "RegexFlags_Sticky \<equiv> 8"
abbreviation (input) RegexFlags_DotAll :: "32 word" where "RegexFlags_DotAll \<equiv> 12"

text \<open>
  The first loop of \<^verbatim>\<open>scanRegularExpression\<close>, over the body. \<open>Inl\<close> is the state at a
  \<^verbatim>\<open>return Token.Error\<close>, \<open>Inr\<close> the state at \<^verbatim>\<open>break loop\<close>.
\<close>

function scanRegularExpression_body ::
  "Context \<Rightarrow> 32 word \<Rightarrow> ParserState \<Rightarrow> ParserState + ParserState" where
  "scanRegularExpression_body ctx preparseState p =
     (let ch = nextCodePoint p; p1 = advance p in
      if preparseState AND RegexState_Escape \<noteq> 0 then
        (if length (source p1) \<le> index p1 then Inl (report p1 ctx UnterminatedRegExp [])
         else scanRegularExpression_body ctx (preparseState AND NOT RegexState_Escape) p1)
      else if ch = Num Chars_Slash \<and> preparseState = 0 then Inr p1
      else if ch = Num Chars_CarriageReturn \<or> ch = Num Chars_LineFeed \<or>
              ch = Num Chars_LineSeparator \<or> ch = Num Chars_ParagraphSeparator
      then Inl (report p1 ctx UnterminatedRegExp [])
      else if length (source p1) \<le> index p1 then Inl (report p1 ctx UnterminatedRegExp [])
      else scanRegularExpression_body ctx
             (if ch = Num Chars_Backslash then preparseState OR RegexState_Escape
              else if ch = Num Chars_LeftBracket then preparseState OR RegexState_Class
              else if ch = Num Chars_RightBracket then preparseState AND RegexState_Escape
              else preparseState)
             p1)"
  by pat_completeness auto
termination
  by (relation "measure (\<lambda>(ctx, st, p). length (source p) - index p)")
     (auto simp: advance_def)

declare scanRegularExpression_body.simps [simp del]

text \<open>
  The second loop, over the flags: \<^verbatim>\<open>while (isIdentifierPart(char)) { switch (char) ...;
  char = advance(parser) }\<close>. \<open>Inl\<close> is the state at a \<^verbatim>\<open>return Token.Error\<close>, \<open>Inr\<close> the
  state when the loop ends.
\<close>

function scanRegularExpression_flags ::
  "Collaborators \<Rightarrow> Context \<Rightarrow> 32 word \<Rightarrow> number \<Rightarrow> ParserState \<Rightarrow> ParserState + ParserState" where
  "scanRegularExpression_flags E ctx mask' char p =
     (if \<not> isIdentifierPart E char then Inr p
      else if char = Num Chars_LowerG then
        (let p1 = (if mask' AND RegexFlags_Global \<noteq> 0
                   then report p ctx DuplicateRegExpFlag [''g''] else p);
             p2 = advance p1
         in scanRegularExpression_flags E ctx (mask' OR RegexFlags_Global) (nextCodePoint p2) p2)
      else if char = Num Chars_LowerI then
        (if mask' AND RegexFlags_IgnoreCase \<noteq> 0
         then Inl (report p ctx DuplicateRegExpFlag [''i''])
         else let p2 = advance p
              in scanRegularExpression_flags E ctx (mask' OR RegexFlags_IgnoreCase) (nextCodePoint p2) p2)
      else if char = Num Chars_LowerM then
        (if mask' AND RegexFlags_Multiline \<noteq> 0
         then Inl (report p ctx DuplicateRegExpFlag [''m''])
         else let p2 = advance p
              in scanRegularExpression_flags E ctx (mask' OR RegexFlags_Multiline) (nextCodePoint p2) p2)
      else if char = Num Chars_LowerU then
        (if mask' AND RegexFlags_Unicode \<noteq> 0
         then Inl (report p ctx DuplicateRegExpFlag [''u''])
         else let p2 = advance p
              in scanRegularExpression_flags E ctx (mask' OR RegexFlags_Unicode) (nextCodePoint p2) p2)
      else if char = Num Chars_LowerY then
        (if mask' AND RegexFlags_Sticky \<noteq> 0
         then Inl (report p ctx DuplicateRegExpFlag [''y''])
         else let p2 = advance p
              in scanRegularExpression_flags E ctx (mask' OR RegexFlags_Sticky) (nextCodePoint p2) p2)
      else if char = Num Chars_LowerS then
        (if mask' AND RegexFlags_DotAll \<noteq> 0
         then Inl (report p ctx DuplicateRegExpFlag [''s''])
         else let p2 = advance p
              in scanRegularExpression_flags E ctx (mask' OR RegexFlags_DotAll) (nextCodePoint p2) p2)
      else Inl (report p ctx UnexpectedTokenRegExpFlag []))"
  by pat_completeness auto
termination
  by (relation "measure (\<lambda>(E, ctx, mask', char, p).
        case char of NaN \<Rightarrow> 0 | Num c \<Rightarrow> 1 + (length (source p) - index p))")
     (auto simp: advance_def report_def charCodeAt_def split: number.splits)

declare scanRegularExpression_flags.simps [simp del]

text \<open>
  \<^verbatim>\<open>validate\<close>: the value stored in \<^verbatim>\<open>tokenValue\<close>, with the state after a possible
  report. \<^verbatim>\<open>RegExp(pattern)\<close> is the host's constructor without flags.
\<close>

definition validate ::
  "Collaborators \<Rightarrow> ParserState \<Rightarrow> Context \<Rightarrow> nat list \<Rightarrow> nat list \<Rightarrow> TokenValue \<times> ParserState" where
  "validate E p ctx pattern flags =
     (if \<not> hostRegExp E pattern [] then (ValToken Error, report p ctx UnterminatedRegExp [])
      else if hostRegExp E pattern flags then (ValRegExp pattern flags, p)
      else (ValNull, p))"

definition scanRegularExpression ::
  "Collaborators \<Rightarrow> ParserState \<Rightarrow> Context \<Rightarrow> Token \<times> ParserState" where
  "scanRegularExpression E p ctx =
     (let bodyStart = index p in
      case scanRegularExpression_body ctx RegexState_Empty p of
        Inl pe \<Rightarrow> (Error, pe)
      | Inr p1 \<Rightarrow>
          let bodyEnd = index p1 - 1; flagStart = index p1 in
          (case scanRegularExpression_flags E ctx RegexFlags_Empty (nextCodePoint p1) p1 of
             Inl pe \<Rightarrow> (Error, pe)
           | Inr p2 \<Rightarrow>
               let flags = slice (source p2) flagStart (index p2);
                   pattern = slice (source p2) bodyStart bodyEnd;
                   p3 = p2\<lparr>tokenRegExp := Some (pattern, flags)\<rparr>;
                   p4 = (if OptionsRaw \<in> ctx
                         then p3\<lparr>tokenRaw := Some (slice (source p3) (tokenPos p3) (index p3))\<rparr>
                         else p3);
                   (v, p5) = validate E p4 ctx pattern flags
               in (RegularExpression, p5\<lparr>tokenValue := v\<rparr>)))"

section \<open>scanner/scan.ts\<close>

definition firstCharKinds :: "Token list" where
  "firstCharKinds =
     [ Error, Error, Error, Error, Error, Error, Error, Error,
       Error, WhiteSpace, LineFeed, WhiteSpace, WhiteSpace, CarriageReturn, Error, Error,
       Error, Error, Error, Error, Error, Error, Error, Error,
       Error, Error, Error, Error, Error, Error, Error, Error,
       WhiteSpace, Negate, StringLiteral, PrivateField, Identifier, Modulo, BitwiseAnd, StringLiteral,
       LeftParen, RightParen, Multiply, Add, Comma, Subtract, Period, Divide,
       LeadingZero, NumericLiteral, NumericLiteral, NumericLiteral,
       NumericLiteral, NumericLiteral, NumericLiteral, NumericLiteral,
       NumericLiteral, NumericLiteral, Colon, Semicolon, LessThan, Assign, GreaterThan, QuestionMark,
       Error, Identifier, Identifier, Identifier, Identifier, Identifier, Identifier, Identifier,
       Identifier, Identifier, Identifier, Identifier, Identifier, Identifier, Identifier, Identifier,
       Identifier, Identifier, Identifier, Identifier, Identifier, Identifier, Identifier, Identifier,
       Identifier, Identifier, Identifier, LeftBracket, UnicodeEscapeIdStart, RightBracket,
       BitwiseXor, Identifier,
       TemplateTail, IdentifierOrKeyword, IdentifierOrKeyword, IdentifierOrKeyword,
       IdentifierOrKeyword, IdentifierOrKeyword, IdentifierOrKeyword, IdentifierOrKeyword,
       Identifier, IdentifierOrKeyword, Identifier, Identifier,
       IdentifierOrKeyword, Identifier, IdentifierOrKeyword, Identifier,
       IdentifierOrKeyword, Identifier, IdentifierOrKeyword, IdentifierOrKeyword,
       IdentifierOrKeyword, Identifier, IdentifierOrKeyword, IdentifierOrKeyword,
       Identifier, IdentifierOrKeyword, IdentifierOrKeyword, LeftBrace,
       BitwiseOr, RightBrace, Complement, Error ]"

text \<open>
  One pass through the body of the \<^verbatim>\<open>while\<close> loop of \<^verbatim>\<open>scanSingleToken\<close> either
  returns a token or reaches a \<^verbatim>\<open>continue\<close>, with the value \<^verbatim>\<open>lastIsCR\<close> then has.
\<close>

datatype Step = Return Token ParserState | Continue nat ParserState

definition ret :: "Token \<times> ParserState \<Rightarrow> Step" where
  "ret r = Return (fst r) (snd r)"

text \<open>
  The block of \<^verbatim>\<open>case Token.LineFeed\<close>, which \<^verbatim>\<open>case Token.CarriageReturn\<close> falls
  through to.
\<close>

definition scanSingleToken_LineFeed :: "nat \<Rightarrow> ParserState \<Rightarrow> Step" where
  "scanSingleToken_LineFeed lastIsCR p =
     (let p1 = p\<lparr>precedingLineBreak := 1, index := index p + 1,
                  nextCodePoint := charCodeAt (source p) (index p + 1)\<rparr>;
          p2 = (if lastIsCR = 0 then p1\<lparr>column := 0, line := line p1 + 1\<rparr> else p1)
      in Continue 0 p2)"

definition scanSingleToken_CarriageReturn :: "ParserState \<Rightarrow> Step" where
  "scanSingleToken_CarriageReturn p =
     scanSingleToken_LineFeed 1 (p\<lparr>column := 0, line := line p + 1\<rparr>)"

definition scanSingleToken_Period :: "Collaborators \<Rightarrow> Context \<Rightarrow> ParserState \<Rightarrow> Step" where
  "scanSingleToken_Period E ctx p =
     (let p1 = advance p; next = nextCodePoint p1 in
      if num_ge next Chars_Zero \<and> num_le next Chars_Nine then ret (scanNumber E p1 ctx 0 1)
      else if next = Num Chars_Period \<and> index p1 + 1 < length (source p1) \<and>
              charCodeAt (source p1) (index p1 + 1) = Num Chars_Period
      then Return Ellipsis
             (p1\<lparr>column := column p1 + 2, index := index p1 + 2,
                 nextCodePoint := charCodeAt (source p1) (index p1 + 2)\<rparr>)
      else Return Period p1)"

definition scanSingleToken_LessThan ::
  "Collaborators \<Rightarrow> Context \<Rightarrow> nat \<Rightarrow> ParserState \<Rightarrow> Step" where
  "scanSingleToken_LessThan E ctx lastIsCR p =
     (let p1 = advance p in
      if index p1 < length' p1 then
        if nextCodePoint p1 = Num Chars_LessThan then
          (let p2 = advance p1 in
           if nextCodePoint p2 = Num Chars_EqualSign
           then Return ShiftLeftAssign (p2\<lparr>index := index p2 + 1\<rparr>)
           else Return ShiftLeft p2)
        else if nextCodePoint p1 = Num Chars_EqualSign then Return LessThanOrEqual (advance p1)
        else if nextCodePoint p1 = Num Chars_Exclamation \<and>
                charCodeAt (source p1) (index p1 + 2) = Num Chars_Hyphen \<and>
                charCodeAt (source p1) (index p1 + 1) = Num Chars_Hyphen
        then Continue lastIsCR
               (skipSingleLineComment E (p1\<lparr>index := index p1 + 2, column := column p1 + 3\<rparr>))
        else Return LessThan p1
      else Return LessThan p1)"

definition scanSingleToken_QuestionMark :: "Context \<Rightarrow> ParserState \<Rightarrow> Step" where
  "scanSingleToken_QuestionMark ctx p =
     (let p1 = advance p; ch = nextCodePoint p1 in
      if OptionsNext \<in> ctx then
        if nextCodePoint p1 = Num Chars_QuestionMark then Return Coalesce (advance p1)
        else if ch = Num Chars_Period then
          (let ch' = toInt32 (charCodeAt (source p1) (index p1 + 1)) in
           if ch' > Chars_Nine \<or> ch' \<le> Chars_Zero then Return QuestionMarkPeriod (advance p1)
           else Return QuestionMark p1)
        else Return QuestionMark p1
      else Return QuestionMark p1)"

definition scanSingleToken_Assign :: "ParserState \<Rightarrow> Step" where
  "scanSingleToken_Assign p =
     (let p1 = advance p in
      if length' p1 \<le> index p1 then Return Assign p1
      else
        let char = nextCodePoint p1 in
        if char = Num Chars_EqualSign then
          (let p2 = advance p1 in
           if nextCodePoint p2 = Num Chars_EqualSign then Return StrictEqual (advance p2)
           else Return LooseEqual p2)
        else if char = Num Chars_GreaterThan then Return Arrow (advance p1)
        else Return Assign p1)"

definition scanSingleToken_Negate :: "ParserState \<Rightarrow> Step" where
  "scanSingleToken_Negate p =
     (let p1 = advance p in
      if nextCodePoint p1 \<noteq> Num Chars_EqualSign then Return Negate p1
      else
        let p2 = advance p1 in
        if nextCodePoint p2 \<noteq> Num Chars_EqualSign then Return LooseNotEqual p2
        else Return StrictNotEqual (advance p2))"

definition scanSingleToken_Modulo :: "ParserState \<Rightarrow> Step" where
  "scanSingleToken_Modulo p =
     (let p1 = advance p in
      if nextCodePoint p1 \<noteq> Num Chars_EqualSign then Return Modulo p1
      else Return ModuloAssign (advance p1))"

definition scanSingleToken_Multiply :: "ParserState \<Rightarrow> Step" where
  "scanSingleToken_Multiply p =
     (let p1 = advance p in
      if length' p1 \<le> index p1 then Return Multiply p1
      else
        let char = nextCodePoint p1 in
        if char = Num Chars_EqualSign then Return MultiplyAssign (advance p1)
        else if char \<noteq> Num Chars_Asterisk then Return Multiply p1
        else
          let p2 = advance p1 in
          if nextCodePoint p2 \<noteq> Num Chars_EqualSign then Return Exponentiate p2
          else Return ExponentiateAssign (advance p2))"

definition scanSingleToken_BitwiseXor :: "ParserState \<Rightarrow> Step" where
  "scanSingleToken_BitwiseXor p =
     (let p1 = advance p in
      if nextCodePoint p1 \<noteq> Num Chars_EqualSign then Return BitwiseXor p1
      else Return BitwiseXorAssign (advance p1))"

definition scanSingleToken_Add :: "ParserState \<Rightarrow> Step" where
  "scanSingleToken_Add p =
     (let p1 = advance p in
      if length' p1 \<le> index p1 then Return Add p1
      else
        let char = nextCodePoint p1 in
        if char = Num Chars_Plus then Return Increment (advance p1)
        else if char = Num Chars_EqualSign then Return AddAssign (advance p1)
        else Return Add p1)"

definition scanSingleToken_Subtract ::
  "Collaborators \<Rightarrow> Context \<Rightarrow> bool \<Rightarrow> nat \<Rightarrow> ParserState \<Rightarrow> Step" where
  "scanSingleToken_Subtract E ctx isStartOfLine lastIsCR p =
     (let p1 = advance p in
      if length' p1 \<le> index p1 then Return Subtract p1
      else
        let char = nextCodePoint p1 in
        if char = Num Chars_Hyphen then
          (let p2 = advance p1 in
           if Module \<notin> ctx \<and> (precedingLineBreak p2 \<noteq> 0 \<or> isStartOfLine) \<and>
              nextCodePoint p2 = Num Chars_GreaterThan
           then
             if DisableWebCompat \<in> ctx
             then Return Error (report p2 ctx HtmlCommentInWebCompat [])
             else Continue lastIsCR (skipSingleLineComment E p2)
           else Return Decrement p2)
        else if char = Num Chars_EqualSign then Return SubtractAssign (advance p1)
        else Return Subtract p1)"

definition scanSingleToken_Divide ::
  "Collaborators \<Rightarrow> Context \<Rightarrow> nat \<Rightarrow> ParserState \<Rightarrow> Step" where
  "scanSingleToken_Divide E ctx lastIsCR p =
     (let p1 = advance p; char = nextCodePoint p1 in
      if char = Num Chars_Slash then Continue lastIsCR (skipSingleLineComment E (advance p1))
      else if char = Num Chars_Asterisk then
        (let r = skipMultiLineComment E (advance p1) ctx in
         if fst r < 1 then Return Error (snd r) else Continue lastIsCR (snd r))
      else if AllowRegExp \<in> ctx then ret (scanRegularExpression E p1 ctx)
      else if char = Num Chars_EqualSign then Return DivideAssign (advance p1)
      else Return Divide p1)"

definition scanSingleToken_BitwiseOr :: "ParserState \<Rightarrow> Step" where
  "scanSingleToken_BitwiseOr p =
     (let p1 = advance p in
      if length' p1 \<le> index p1 then Return BitwiseOr p1
      else
        let char = nextCodePoint p1 in
        if char = Num Chars_VerticalBar then Return LogicalOr (advance p1)
        else if char = Num Chars_EqualSign then Return BitwiseOrAssign (advance p1)
        else Return BitwiseOr p1)"

definition scanSingleToken_GreaterThan :: "ParserState \<Rightarrow> Step" where
  "scanSingleToken_GreaterThan p =
     (let p1 = advance p in
      if length' p1 \<le> index p1 then Return GreaterThan p1
      else
        let char = nextCodePoint p1 in
        if char = Num Chars_EqualSign then Return GreaterThanOrEqual (advance p1)
        else if char \<noteq> Num Chars_GreaterThan then Return GreaterThan p1
        else
          let p2 = advance p1; char = nextCodePoint p2 in
          if char = Num Chars_GreaterThan then
            (let p3 = advance p2 in
             if nextCodePoint p3 \<noteq> Num Chars_EqualSign then Return LogicalShiftRight p3
             else Return LogicalShiftRightAssign (advance p3))
          else if char = Num Chars_EqualSign then Return ShiftRightAssign (advance p2)
          else Return ShiftRight p2)"

definition scanSingleToken_BitwiseAnd :: "ParserState \<Rightarrow> Step" where
  "scanSingleToken_BitwiseAnd p =
     (let p1 = advance p in
      if length (source p1) \<le> index p1 then Return BitwiseAnd p1
      else
        let char = nextCodePoint p1 in
        if char = Num Chars_Ampersand then Return LogicalAnd (advance p1)
        else if char = Num Chars_EqualSign then Return BitwiseAndAssign (advance p1)
        else Return BitwiseAnd p1)"

text \<open>
  The statements after the \<^verbatim>\<open>if (char <= 0x7e)\<close> block: reached by every code unit
  above \<open>0x7e\<close> and by the units whose table entry has no \<^verbatim>\<open>case\<close> of its own.
\<close>

definition scanSingleToken_nonASCII ::
  "Collaborators \<Rightarrow> Context \<Rightarrow> nat \<Rightarrow> ParserState \<Rightarrow> Step" where
  "scanSingleToken_nonASCII E ctx lastIsCR p =
     (let char = nextCodePoint p; c = toInt32 char in
      if c XOR Chars_LineSeparator \<le> 1 then
        Continue 0
          (p\<lparr>precedingLineBreak := 1, index := index p + 1,
             nextCodePoint := charCodeAt (source p) (index p + 1), column := 0,
             line := line p + 1\<rparr>)
      else if c AND 0xfc00 = 0xd800 \<or> lookupBit E c 34816 \<noteq> 0 then
        (if c AND 0xfc00 = 0xdc00 then
           (let char' = push_bit 10 (c AND 0x3ff) OR (c AND 0x3ff) OR 0x10000 in
            if lookupBit E char' 0 = 0 then Return Error (report p ctx InvalidSMPCharacter [])
            else ret (scanIdentifierSlowPath E
                        (p\<lparr>index := index p + 1, nextCodePoint := Num char',
                           column := column p + 1\<rparr>) ctx [] 0))
         else ret (scanIdentifierSlowPath E p ctx [] 0))
      else if isExoticECMAScriptWhitespace char then Continue lastIsCR (advance p)
      else Return Error (report p ctx InvalidCharacter []))"

definition scanSingleToken_iteration ::
  "Collaborators \<Rightarrow> Context \<Rightarrow> bool \<Rightarrow> nat \<Rightarrow> ParserState \<Rightarrow> Step" where
  "scanSingleToken_iteration E ctx isStartOfLine lastIsCR p0 =
     (let p = p0\<lparr>tokenPos := index p0\<rparr>; char = nextCodePoint p in
      if num_le char 0x7e then
        (let token = firstCharKinds ! toInt32 char in
         if token \<in> set [RightBrace, LeftBrace, Comma, Colon, Complement, LeftParen, RightParen,
                          Semicolon, LeftBracket, RightBracket, Error]
         then Return token (advance p)
         else
           (case token of
              WhiteSpace \<Rightarrow> Continue lastIsCR (advance p)
            | CarriageReturn \<Rightarrow> scanSingleToken_CarriageReturn p
            | LineFeed \<Rightarrow> scanSingleToken_LineFeed lastIsCR p
            | IdentifierOrKeyword \<Rightarrow> ret (scanIdentifierOrKeyword E p ctx 1)
            | Identifier \<Rightarrow> ret (scanIdentifierOrKeyword E p ctx 0)
            | StringLiteral \<Rightarrow> ret (scanStringLiteral E p ctx char)
            | NumericLiteral \<Rightarrow> ret (scanNumber E p ctx 0 0)
            | LeadingZero \<Rightarrow> ret (scanLeadingZero E p ctx char)
            | UnicodeEscapeIdStart \<Rightarrow> ret (scanUnicodeEscapeIdStart E p ctx)
            | TemplateTail \<Rightarrow> ret (scanTemplate E p ctx)
            | Period \<Rightarrow> scanSingleToken_Period E ctx p
            | LessThan \<Rightarrow> scanSingleToken_LessThan E ctx lastIsCR p
            | QuestionMark \<Rightarrow> scanSingleToken_QuestionMark ctx p
            | Assign \<Rightarrow> scanSingleToken_Assign p
            | Negate \<Rightarrow> scanSingleToken_Negate p
            | Modulo \<Rightarrow> scanSingleToken_Modulo p
            | Multiply \<Rightarrow> scanSingleToken_Multiply p
            | BitwiseXor \<Rightarrow> scanSingleToken_BitwiseXor p
            | Add \<Rightarrow> scanSingleToken_Add p
            | Subtract \<Rightarrow> scanSingleToken_Subtract E ctx isStartOfLine lastIsCR p
            | Divide \<Rightarrow> scanSingleToken_Divide E ctx lastIsCR p
            | BitwiseOr \<Rightarrow> scanSingleToken_BitwiseOr p
            | GreaterThan \<Rightarrow> scanSingleToken_GreaterThan p
            | BitwiseAnd \<Rightarrow> scanSingleToken_BitwiseAnd p
            | _ \<Rightarrow> scanSingleToken_nonASCII E ctx lastIsCR p))
      else scanSingleToken_nonASCII E ctx lastIsCR p)"

text \<open>
  The \<^verbatim>\<open>while (parser.index < parser.length)\<close> loop. Nothing in scan.ts bounds what the
  comment skippers do to \<^verbatim>\<open>parser.index\<close>, so the loop is a partial function: \<open>None\<close> is
  a loop that never ends.
\<close>

partial_function (option) scanSingleToken_loop ::
  "Collaborators \<Rightarrow> Context \<Rightarrow> bool \<Rightarrow> nat \<Rightarrow> ParserState \<Rightarrow> (Token \<times> ParserState) option" where
  "scanSingleToken_loop E ctx isStartOfLine lastIsCR p =
     (if index p < length' p then
        (case scanSingleToken_iteration E ctx isStartOfLine lastIsCR p of
           Return t p' \<Rightarrow> Some (t, p')
         | Continue lastIsCR' p' \<Rightarrow> scanSingleToken_loop E ctx isStartOfLine lastIsCR' p')
      else Some (EndOfSource, p))"

definition scanSingleToken ::
  "Collaborators \<Rightarrow> ParserState \<Rightarrow> Context \<Rightarrow> (Token \<times> ParserState) option" where
  "scanSingleToken E p ctx = scanSingleToken_loop E ctx (index p = 0) 0 p"

definition nextToken ::
  "Collaborators \<Rightarrow> ParserState \<Rightarrow> Context \<Rightarrow> (Token \<times> ParserState) option" where
  "nextToken E p ctx =
     (case scanSingleToken E (p\<lparr>precedingLineBreak := 0, startPos := index p\<rparr>) ctx of
        None \<Rightarrow> None
      | Some (t, p') \<Rightarrow> Some (t, p'\<lparr>token := t\<rparr>))"

section \<open>An instance of the collaborators\<close>

text \<open>
  The theorems below hold for every value of the collaborators. To run the model on a
  concrete source, the following instance is used. Its comment skippers and its
  identifier test follow the spec; its unicode table is empty (no identifier character
  outside ASCII); its host accepts every pattern, with distinct flags among
  \<^verbatim>\<open>dgimsuvy\<close>. The scanners of identifiers, strings, templates and numbers are not
  modelled at all: here each consumes one code unit and returns the tag of its family.
\<close>

definition isLineTerminator :: "number \<Rightarrow> bool" where
  "isLineTerminator n =
     (n = Num Chars_LineFeed \<or> n = Num Chars_CarriageReturn \<or>
      n = Num Chars_LineSeparator \<or> n = Num Chars_ParagraphSeparator)"

text \<open>
  Modelled from the spec: \<^verbatim>\<open>skipSingleLineComment\<close> (comments.ts) is not among the
  sources. It consumes until LF, CR, LS, PS or the end of the source, and on exit sets
  \<^verbatim>\<open>precedingLineBreak\<close>.
\<close>

function spec_skipSingleLineComment :: "ParserState \<Rightarrow> ParserState" where
  "spec_skipSingleLineComment p =
     (if index p < length (source p) \<and> \<not> isLineTerminator (nextCodePoint p)
      then spec_skipSingleLineComment (advance p)
      else p\<lparr>precedingLineBreak := 1\<rparr>)"
  by pat_completeness auto
termination
  by (relation "measure (\<lambda>p. length (source p) - index p)") (auto simp: advance_def)

declare spec_skipSingleLineComment.simps [simp del]

text \<open>
  Modelled from the spec: \<^verbatim>\<open>skipMultiLineComment\<close> (comments.ts) is not among the
  sources. It consumes until \<^verbatim>\<open>*/\<close>; on each line terminator it bumps the line, resets
  the column and sets \<^verbatim>\<open>precedingLineBreak\<close> (a CR before an LF is left to the LF); the
  end of the source before \<^verbatim>\<open>*/\<close> is \<^verbatim>\<open>UnterminatedComment\<close>. The value is 0 for an
  unterminated comment (scan.ts reads a value below 1 as the failure) and 1 otherwise.
\<close>

function spec_skipMultiLineComment :: "ParserState \<Rightarrow> Context \<Rightarrow> int \<times> ParserState" where
  "spec_skipMultiLineComment p ctx =
     (if length (source p) \<le> index p then (0, report p ctx UnterminatedComment [])
      else if nextCodePoint p = Num Chars_Asterisk \<and>
              charCodeAt (source p) (index p + 1) = Num Chars_Slash
      then (1, advance (advance p))
      else if nextCodePoint p = Num Chars_CarriageReturn \<and>
              charCodeAt (source p) (index p + 1) = Num Chars_LineFeed
      then spec_skipMultiLineComment (advance p) ctx
      else if isLineTerminator (nextCodePoint p)
      then spec_skipMultiLineComment
             ((advance p)\<lparr>line := line p + 1, column := 0, precedingLineBreak := 1\<rparr>) ctx
      else spec_skipMultiLineComment (advance p) ctx)"
  by pat_completeness auto
termination
  by (relation "measure (\<lambda>(p, ctx). length (source p) - index p)") (auto simp: advance_def)

declare spec_skipMultiLineComment.simps [simp del]

text \<open>
  Modelled from the spec: \<^verbatim>\<open>isIdentifierPart\<close> (charClassifier.ts) is not among the
  sources; on ASCII the identifier parts are the letters, the digits, \<^verbatim>\<open>$\<close> and \<^verbatim>\<open>_\<close>.
\<close>

definition asciiIdentifierPart :: "number \<Rightarrow> bool" where
  "asciiIdentifierPart n =
     (case n of
        NaN \<Rightarrow> False
      | Num c \<Rightarrow> (48 \<le> c \<and> c \<le> 57) \<or> (65 \<le> c \<and> c \<le> 90) \<or> (97 \<le> c \<and> c \<le> 122) \<or>
                 c = 36 \<or> c = 95)"

definition oneUnit :: "Token \<Rightarrow> ParserState \<Rightarrow> Token \<times> ParserState" where
  "oneUnit t p = (t, advance p)"

definition instanceCollaborators :: Collaborators where
  "instanceCollaborators =
     \<lparr> scanIdentifierOrKeyword = (\<lambda>p ctx canBeKeyword. oneUnit Identifier p),
       scanIdentifierSlowPath = (\<lambda>p ctx value canBeKeyword. oneUnit Identifier p),
       scanUnicodeEscapeIdStart = (\<lambda>p ctx. oneUnit Identifier p),
       scanStringLiteral = (\<lambda>p ctx quote. oneUnit StringLiteral p),
       scanTemplate = (\<lambda>p ctx. oneUnit TemplateTail p),
       scanNumber = (\<lambda>p ctx nonOctalDecimalInteger isFloat. oneUnit NumericLiteral p),
       scanLeadingZero = (\<lambda>p ctx ch. oneUnit NumericLiteral p),
       skipSingleLineComment = spec_skipSingleLineComment,
       skipMultiLineComment = spec_skipMultiLineComment,
       isIdentifierPart = asciiIdentifierPart,
       unicodeLookup = (\<lambda>i. 0),
       hostRegExp = (\<lambda>pattern flags.
          distinct flags \<and> set flags \<subseteq> {100, 103, 105, 109, 115, 117, 118, 121}) \<rparr>"

section \<open>Predicates used by the statements\<close>

text \<open>
  What the proof about diagnostics asks of the scanners that are not among the sources:
  each records a diagnostic when it returns \<open>Error\<close> (for \<^verbatim>\<open>skipMultiLineComment\<close>: when
  its value is below 1), and the comment skippers drop none.
\<close>

definition collaboratorsReport :: "Collaborators \<Rightarrow> bool" where
  "collaboratorsReport E \<longleftrightarrow>
     (\<forall>p ctx k q. scanIdentifierOrKeyword E p ctx k = (Error, q) \<longrightarrow>
        length (diagnostics p) < length (diagnostics q)) \<and>
     (\<forall>p ctx v k q. scanIdentifierSlowPath E p ctx v k = (Error, q) \<longrightarrow>
        length (diagnostics p) < length (diagnostics q)) \<and>
     (\<forall>p ctx q. scanUnicodeEscapeIdStart E p ctx = (Error, q) \<longrightarrow>
        length (diagnostics p) < length (diagnostics q)) \<and>
     (\<forall>p ctx c q. scanStringLiteral E p ctx c = (Error, q) \<longrightarrow>
        length (diagnostics p) < length (diagnostics q)) \<and>
     (\<forall>p ctx q. scanTemplate E p ctx = (Error, q) \<longrightarrow>
        length (diagnostics p) < length (diagnostics q)) \<and>
     (\<forall>p ctx a b q. scanNumber E p ctx a b = (Error, q) \<longrightarrow>
        length (diagnostics p) < length (diagnostics q)) \<and>
     (\<forall>p ctx c q. scanLeadingZero E p ctx c = (Error, q) \<longrightarrow>
        length (diagnostics p) < length (diagnostics q)) \<and>
     (\<forall>p ctx. fst (skipMultiLineComment E p ctx) < 1 \<longrightarrow>
        length (diagnostics p) < length (diagnostics (snd (skipMultiLineComment E p ctx)))) \<and>
     (\<forall>p ctx. length (diagnostics p) \<le> length (diagnostics (snd (skipMultiLineComment E p ctx)))) \<and>
     (\<forall>p. length (diagnostics p) \<le> length (diagnostics (skipSingleLineComment E p)))"

text \<open>
  The bit of \<^verbatim>\<open>RegexFlags\<close> that the \<^verbatim>\<open>switch\<close> of the flag loop tests and sets for a
  flag character.
\<close>

definition regexFlagBit :: "nat \<Rightarrow> 32 word" where
  "regexFlagBit c =
     (if c = Chars_LowerG then RegexFlags_Global
      else if c = Chars_LowerI then RegexFlags_IgnoreCase
      else if c = Chars_LowerM then RegexFlags_Multiline
      else if c = Chars_LowerU then RegexFlags_Unicode
      else if c = Chars_LowerY then RegexFlags_Sticky
      else if c = Chars_LowerS then RegexFlags_DotAll
      else 0)"

text \<open>
  The cached code unit is what \<^verbatim>\<open>source.charCodeAt(index)\<close> gives: the unit at
  \<open>index\<close> inside the source, \<open>NaN\<close> at and after its end.
\<close>

definition cacheConsistent :: "ParserState \<Rightarrow> bool" where
  "cacheConsistent p \<longleftrightarrow>
     nextCodePoint p =
       (if index p < length (source p) then Num (source p ! index p) else NaN)"

text \<open>
  The states at which an iteration of the loop of \<^verbatim>\<open>scanSingleToken\<close> starts:
  \<open>scanSingleToken_reaches E ctx isStartOfLine lastIsCR p lastIsCR' q\<close> holds when the loop
  entered with \<open>lastIsCR\<close> and \<open>p\<close> comes, after iterations that all \<^verbatim>\<open>continue\<close>, to the
  test of its condition with \<open>lastIsCR'\<close> and \<open>q\<close>.
\<close>

inductive scanSingleToken_reaches ::
  "Collaborators \<Rightarrow> Context \<Rightarrow> bool \<Rightarrow> nat \<Rightarrow> ParserState \<Rightarrow> nat \<Rightarrow> ParserState \<Rightarrow> bool"
  for E ctx isStartOfLine where
    here: "scanSingleToken_reaches E ctx isStartOfLine lastIsCR p lastIsCR p"
  | continue:
      "index p < length' p \<Longrightarrow>
       scanSingleToken_iteration E ctx isStartOfLine lastIsCR p = Continue lastIsCR' p' \<Longrightarrow>
       scanSingleToken_reaches E ctx isStartOfLine lastIsCR' p' lastIsCR'' p'' \<Longrightarrow>
       scanSingleToken_reaches E ctx isStartOfLine lastIsCR p lastIsCR'' p''"

text \<open>
  One iteration of the flag loop of \<^verbatim>\<open>scanRegularExpression\<close> that goes on to the next:
  the mask and the state with which the next iteration starts. \<open>None\<close> is an iteration
  that leaves the loop, at the end of the flags or with \<open>Error\<close>.
\<close>

definition scanRegularExpression_flags_next ::
  "Collaborators \<Rightarrow> Context \<Rightarrow> 32 word \<Rightarrow> number \<Rightarrow> ParserState \<Rightarrow> (32 word \<times> ParserState) option" where
  "scanRegularExpression_flags_next E ctx mask' char p =
     (if \<not> isIdentifierPart E char then None
      else if char = Num Chars_LowerG then
        Some (mask' OR RegexFlags_Global,
              advance (if mask' AND RegexFlags_Global \<noteq> 0
                       then report p ctx DuplicateRegExpFlag [''g''] else p))
      else if char = Num Chars_LowerI \<and> mask' AND RegexFlags_IgnoreCase = 0
      then Some (mask' OR RegexFlags_IgnoreCase, advance p)
      else if char = Num Chars_LowerM \<and> mask' AND RegexFlags_Multiline = 0
      then Some (mask' OR RegexFlags_Multiline, advance p)
      else if char = Num Chars_LowerU \<and> mask' AND RegexFlags_Unicode = 0
      then Some (mask' OR RegexFlags_Unicode, advance p)
      else if char = Num Chars_LowerY \<and> mask' AND RegexFlags_Sticky = 0
      then Some (mask' OR RegexFlags_Sticky, advance p)
      else if char = Num Chars_LowerS \<and> mask' AND RegexFlags_DotAll = 0
      then Some (mask' OR RegexFlags_DotAll, advance p)
      else None)"

text \<open>
  The iterations of the flag loop: \<open>scanRegularExpression_flags_reaches E ctx p1 mask' char q\<close>
  holds when the loop entered at \<open>p1\<close>, where the body ends, comes to the test of its
  condition with the flags read so far in \<open>mask'\<close>, the cached unit \<open>char\<close> and the
  state \<open>q\<close>.
\<close>

inductive scanRegularExpression_flags_reaches ::
  "Collaborators \<Rightarrow> Context \<Rightarrow> ParserState \<Rightarrow> 32 word \<Rightarrow> number \<Rightarrow> ParserState \<Rightarrow> bool"
  for E ctx p1 where
    start: "scanRegularExpression_flags_reaches E ctx p1 RegexFlags_Empty (nextCodePoint p1) p1"
  | iterate:
      "scanRegularExpression_flags_reaches E ctx p1 mask' char q \<Longrightarrow>
       scanRegularExpression_flags_next E ctx mask' char q = Some (mask'', q') \<Longrightarrow>
       scanRegularExpression_flags_reaches E ctx p1 mask'' (nextCodePoint q') q'"

section \<open>Evaluation on concrete sources\<close>

lemmas iteration_defs =
  scanSingleToken_iteration_def scanSingleToken_LineFeed_def scanSingleToken_CarriageReturn_def
  num_le_def num_ge_def toInt32_def charCodeAt_def advance_def firstCharKinds_def

section \<open>Frames of the basic operations\<close>

lemma advance_frame [simp]:
  "diagnostics (advance p) = diagnostics p" "source (advance p) = source p"
  "length' (advance p) = length' p" "index (advance p) = index p + 1"
  "nextCodePoint (advance p) = charCodeAt (source p) (index p + 1)"
  by (simp_all add: advance_def)

lemma report_frame [simp]:
  "diagnostics (report p ctx e args) = diagnostics p @ [(e, args)]"
  "source (report p ctx e args) = source p" "index (report p ctx e args) = index p"
  "length' (report p ctx e args) = length' p"
  "nextCodePoint (report p ctx e args) = nextCodePoint p"
  by (simp_all add: report_def)

section \<open>The iterations of the loop that continue\<close>

lemma LineFeed_Continue:
  "scanSingleToken_LineFeed l p = Continue l' p' \<Longrightarrow>
     index p' = index p + 1 \<and> length' p' = length' p \<and> diagnostics p' = diagnostics p \<and>
     source p' = source p \<and> nextCodePoint p' = charCodeAt (source p') (index p')"
  by (auto simp: scanSingleToken_LineFeed_def Let_def split: if_splits)

lemma CarriageReturn_Continue:
  "scanSingleToken_CarriageReturn p = Continue l' p' \<Longrightarrow>
     index p' = index p + 1 \<and> length' p' = length' p \<and> diagnostics p' = diagnostics p \<and>
     source p' = source p \<and> nextCodePoint p' = charCodeAt (source p') (index p')"
  by (auto simp: scanSingleToken_CarriageReturn_def dest!: LineFeed_Continue)

lemma never_Continue [simp]:
  "scanSingleToken_Period E ctx p \<noteq> Continue l' p'"
  "scanSingleToken_QuestionMark ctx p \<noteq> Continue l' p'"
  "scanSingleToken_Assign p \<noteq> Continue l' p'"
  "scanSingleToken_Negate p \<noteq> Continue l' p'"
  "scanSingleToken_Modulo p \<noteq> Continue l' p'"
  "scanSingleToken_Multiply p \<noteq> Continue l' p'"
  "scanSingleToken_BitwiseXor p \<noteq> Continue l' p'"
  "scanSingleToken_Add p \<noteq> Continue l' p'"
  "scanSingleToken_BitwiseOr p \<noteq> Continue l' p'"
  "scanSingleToken_GreaterThan p \<noteq> Continue l' p'"
  "scanSingleToken_BitwiseAnd p \<noteq> Continue l' p'"
  "ret r \<noteq> Continue l' p'"
  by (simp_all add: scanSingleToken_Period_def scanSingleToken_QuestionMark_def
      scanSingleToken_Assign_def scanSingleToken_Negate_def scanSingleToken_Modulo_def
      scanSingleToken_Multiply_def scanSingleToken_BitwiseXor_def scanSingleToken_Add_def
      scanSingleToken_BitwiseOr_def scanSingleToken_GreaterThan_def
      scanSingleToken_BitwiseAnd_def ret_def Let_def)

text \<open>Where an iteration continues, the new state is a whitespace advance, a line
  terminator step, or what a comment skipper returns on a state further on.\<close>

lemma iteration_Continue_cases:
  assumes "scanSingleToken_iteration E ctx sol l p0 = Continue l' p'"
  shows "p' = advance (p0\<lparr>tokenPos := index p0\<rparr>)
       \<or> scanSingleToken_LineFeed l (p0\<lparr>tokenPos := index p0\<rparr>) = Continue l' p'
       \<or> scanSingleToken_CarriageReturn (p0\<lparr>tokenPos := index p0\<rparr>) = Continue l' p'
       \<or> scanSingleToken_LessThan E ctx l (p0\<lparr>tokenPos := index p0\<rparr>) = Continue l' p'
       \<or> scanSingleToken_Subtract E ctx sol l (p0\<lparr>tokenPos := index p0\<rparr>) = Continue l' p'
       \<or> scanSingleToken_Divide E ctx l (p0\<lparr>tokenPos := index p0\<rparr>) = Continue l' p'
       \<or> scanSingleToken_nonASCII E ctx l (p0\<lparr>tokenPos := index p0\<rparr>) = Continue l' p'"
proof (cases "num_le (nextCodePoint p0) 0x7e")
  case False
  with assms show ?thesis by (simp add: scanSingleToken_iteration_def Let_def)
next
  case True
  with assms show ?thesis
    by (cases "firstCharKinds ! toInt32 (nextCodePoint p0)")
       (simp_all add: scanSingleToken_iteration_def Let_def)
qed

lemma LessThan_Continue:
  "scanSingleToken_LessThan E ctx l p = Continue l' p' \<Longrightarrow>
     \<exists>q. p' = skipSingleLineComment E q \<and> index p < index q \<and> length' q = length' p \<and>
         diagnostics q = diagnostics p"
  by (auto simp: scanSingleToken_LessThan_def Let_def advance_def split: if_splits)

lemma Subtract_Continue:
  "scanSingleToken_Subtract E ctx sol l p = Continue l' p' \<Longrightarrow>
     \<exists>q. p' = skipSingleLineComment E q \<and> index p < index q \<and> length' q = length' p \<and>
         diagnostics q = diagnostics p"
  by (auto simp: scanSingleToken_Subtract_def Let_def advance_def split: if_splits)

lemma Divide_Continue:
  "scanSingleToken_Divide E ctx l p = Continue l' p' \<Longrightarrow>
     \<exists>q. (p' = skipSingleLineComment E q \<or> (\<exists>c. p' = snd (skipMultiLineComment E q c))) \<and>
         index p < index q \<and> length' q = length' p \<and> diagnostics q = diagnostics p"
  by (auto simp: scanSingleToken_Divide_def Let_def advance_def split: if_splits)

lemma nonASCII_Continue:
  "scanSingleToken_nonASCII E ctx l p = Continue l' p' \<Longrightarrow>
     index p' = index p + 1 \<and> length' p' = length' p \<and> diagnostics p' = diagnostics p"
  by (auto simp: scanSingleToken_nonASCII_def Let_def advance_def split: if_splits)

lemma iteration_Continue_index:
  assumes single: "\<And>q. index q \<le> index (skipSingleLineComment E q) \<and>
                       length' (skipSingleLineComment E q) = length' q"
    and multi: "\<And>q c. index q \<le> index (snd (skipMultiLineComment E q c)) \<and>
                       length' (snd (skipMultiLineComment E q c)) = length' q"
    and step: "scanSingleToken_iteration E ctx sol l p = Continue l' p'"
  shows "index p < index p' \<and> length' p' = length' p"
  using iteration_Continue_cases [OF step]
proof (elim disjE)
  assume "p' = advance (p\<lparr>tokenPos := index p\<rparr>)"
  then show ?thesis by (simp add: advance_def)
next
  assume "scanSingleToken_LineFeed l (p\<lparr>tokenPos := index p\<rparr>) = Continue l' p'"
  from LineFeed_Continue [OF this] show ?thesis by simp
next
  assume "scanSingleToken_CarriageReturn (p\<lparr>tokenPos := index p\<rparr>) = Continue l' p'"
  from CarriageReturn_Continue [OF this] show ?thesis by simp
next
  assume "scanSingleToken_LessThan E ctx l (p\<lparr>tokenPos := index p\<rparr>) = Continue l' p'"
  from LessThan_Continue [OF this] obtain q where
    "p' = skipSingleLineComment E q" "index p < index q" "length' q = length' p" by auto
  with single [of q] show ?thesis by simp
next
  assume "scanSingleToken_Subtract E ctx sol l (p\<lparr>tokenPos := index p\<rparr>) = Continue l' p'"
  from Subtract_Continue [OF this] obtain q where
    "p' = skipSingleLineComment E q" "index p < index q" "length' q = length' p" by auto
  with single [of q] show ?thesis by simp
next
  assume "scanSingleToken_Divide E ctx l (p\<lparr>tokenPos := index p\<rparr>) = Continue l' p'"
  from Divide_Continue [OF this] obtain q where
    q: "p' = skipSingleLineComment E q \<or> (\<exists>c. p' = snd (skipMultiLineComment E q c))"
    "index p < index q" "length' q = length' p" by auto
  from q(1) show ?thesis
  proof
    assume "p' = skipSingleLineComment E q"
    with single [of q] q show ?thesis by simp
  next
    assume "\<exists>c. p' = snd (skipMultiLineComment E q c)"
    then obtain c where "p' = snd (skipMultiLineComment E q c)" ..
    with multi [of q c] q show ?thesis by simp
  qed
next
  assume "scanSingleToken_nonASCII E ctx l (p\<lparr>tokenPos := index p\<rparr>) = Continue l' p'"
  from nonASCII_Continue [OF this] show ?thesis by simp
qed

lemma loop_returns:
  assumes single: "\<And>q. index q \<le> index (skipSingleLineComment E q) \<and>
                       length' (skipSingleLineComment E q) = length' q"
    and multi: "\<And>q c. index q \<le> index (snd (skipMultiLineComment E q c)) \<and>
                       length' (snd (skipMultiLineComment E q c)) = length' q"
  shows "\<exists>r. scanSingleToken_loop E ctx sol l p = Some r"
proof (induction "length' p - index p" arbitrary: p l rule: less_induct)
  case less
  show ?case
  proof (cases "index p < length' p")
    case False
    then show ?thesis by (subst scanSingleToken_loop.simps) simp
  next
    case True
    show ?thesis
    proof (cases "scanSingleToken_iteration E ctx sol l p")
      case (Return t p')
      with True show ?thesis by (subst scanSingleToken_loop.simps) simp
    next
      case (Continue l' p')
      from iteration_Continue_index [OF single multi Continue]
      have "index p < index p'" "length' p' = length' p" by simp_all
      with True have "length' p' - index p' < length' p - index p" by arith
      from less [OF this] obtain r where "scanSingleToken_loop E ctx sol l' p' = Some r" ..
      with True Continue show ?thesis by (subst scanSingleToken_loop.simps) simp
    qed
  qed
qed

section \<open>The regular expression scanner and its diagnostics\<close>

lemma body_Inl:
  "scanRegularExpression_body ctx st p = Inl pe \<Longrightarrow>
     diagnostics pe = diagnostics p @ [(UnterminatedRegExp, [])]"
proof (induction ctx st p rule: scanRegularExpression_body.induct)
  case (1 ctx st p)
  note eq = scanRegularExpression_body.simps [of ctx st p]
  from "1.prems" "1.IH"(1) [OF refl refl] "1.IH"(2) [OF refl refl] show ?case
    unfolding eq by (auto simp: Let_def split: if_splits)
qed

lemma body_Inr:
  "scanRegularExpression_body ctx st p = Inr p1 \<Longrightarrow>
     diagnostics p1 = diagnostics p \<and> source p1 = source p \<and> index p < index p1"
proof (induction ctx st p rule: scanRegularExpression_body.induct)
  case (1 ctx st p)
  note eq = scanRegularExpression_body.simps [of ctx st p]
  from "1.prems" "1.IH"(1) [OF refl refl] "1.IH"(2) [OF refl refl] show ?case
    unfolding eq by (auto simp: Let_def split: if_splits)
qed

lemma flags_Inl:
  "scanRegularExpression_flags E ctx m ch p = Inl pe \<Longrightarrow>
     \<exists>ds. ds \<noteq> [] \<and> diagnostics pe = diagnostics p @ ds"
proof (induction E ctx m ch p rule: scanRegularExpression_flags.induct)
  case (1 E ctx m ch p)
  note eq = scanRegularExpression_flags.simps [of E ctx m ch p]
  from "1.prems" "1.IH"(1) [OF _ _ refl refl] "1.IH"(2) [OF _ _ _ _ refl]
    "1.IH"(3) [OF _ _ _ _ _ refl] "1.IH"(4) [OF _ _ _ _ _ _ refl]
    "1.IH"(5) [OF _ _ _ _ _ _ _ refl] "1.IH"(6) [OF _ _ _ _ _ _ _ _ refl] show ?case
    unfolding eq by (auto simp: Let_def split: if_splits)
qed

lemma flags_Inr:
  "scanRegularExpression_flags E ctx m ch p = Inr p1 \<Longrightarrow>
     (\<exists>ds. diagnostics p1 = diagnostics p @ ds) \<and> source p1 = source p \<and> index p \<le> index p1"
proof (induction E ctx m ch p rule: scanRegularExpression_flags.induct)
  case (1 E ctx m ch p)
  note eq = scanRegularExpression_flags.simps [of E ctx m ch p]
  from "1.prems" "1.IH"(1) [OF _ _ refl refl] "1.IH"(2) [OF _ _ _ _ refl]
    "1.IH"(3) [OF _ _ _ _ _ refl] "1.IH"(4) [OF _ _ _ _ _ _ refl]
    "1.IH"(5) [OF _ _ _ _ _ _ _ refl] "1.IH"(6) [OF _ _ _ _ _ _ _ _ refl] show ?case
    unfolding eq by (auto simp: Let_def split: if_splits)
qed

lemma scanRegularExpression_Error:
  assumes "scanRegularExpression E p ctx = (Error, pe)"
  shows "length (diagnostics p) < length (diagnostics pe)"
proof (cases "scanRegularExpression_body ctx 0 p")
  case (Inl q)
  with assms body_Inl [OF Inl] show ?thesis by (simp add: scanRegularExpression_def)
next
  case (Inr p1)
  note body = body_Inr [OF Inr]
  show ?thesis
  proof (cases "scanRegularExpression_flags E ctx 0 (nextCodePoint p1) p1")
    case (Inl q)
    from flags_Inl [OF Inl] obtain ds where "ds \<noteq> []" "diagnostics q = diagnostics p1 @ ds"
      by auto
    with assms Inr Inl body show ?thesis by (simp add: scanRegularExpression_def)
  next
    case (Inr p2)
    with assms \<open>scanRegularExpression_body ctx 0 p = Inr p1\<close> show ?thesis
      by (simp add: scanRegularExpression_def Let_def split: prod.splits)
  qed
qed

lemma flags_unexpected:
  assumes "isIdentifierPart E ch" and "ch \<notin> Num ` {103, 105, 109, 117, 121, 115}"
  shows "scanRegularExpression_flags E ctx m ch p = Inl (report p ctx UnexpectedTokenRegExpFlag [])"
  using assms by (subst scanRegularExpression_flags.simps) simp

lemma flags_g:
  "isIdentifierPart E (Num 103) \<Longrightarrow>
   scanRegularExpression_flags E ctx m (Num 103) p =
     (let p1 = (if m AND 2 \<noteq> 0 then report p ctx DuplicateRegExpFlag [''g''] else p);
          p2 = advance p1
      in scanRegularExpression_flags E ctx (m OR 2) (nextCodePoint p2) p2)"
  by (subst scanRegularExpression_flags.simps) simp

lemma flags_i:
  "isIdentifierPart E (Num 105) \<Longrightarrow>
   scanRegularExpression_flags E ctx m (Num 105) p =
     (if m AND 1 \<noteq> 0 then Inl (report p ctx DuplicateRegExpFlag [''i''])
      else scanRegularExpression_flags E ctx (m OR 1) (nextCodePoint (advance p)) (advance p))"
  by (subst scanRegularExpression_flags.simps) (simp add: Let_def)

lemma flags_m:
  "isIdentifierPart E (Num 109) \<Longrightarrow>
   scanRegularExpression_flags E ctx m (Num 109) p =
     (if m AND 4 \<noteq> 0 then Inl (report p ctx DuplicateRegExpFlag [''m''])
      else scanRegularExpression_flags E ctx (m OR 4) (nextCodePoint (advance p)) (advance p))"
  by (subst scanRegularExpression_flags.simps) (simp add: Let_def)

lemma flags_u:
  "isIdentifierPart E (Num 117) \<Longrightarrow>
   scanRegularExpression_flags E ctx m (Num 117) p =
     (if m AND 16 \<noteq> 0 then Inl (report p ctx DuplicateRegExpFlag [''u''])
      else scanRegularExpression_flags E ctx (m OR 16) (nextCodePoint (advance p)) (advance p))"
  by (subst scanRegularExpression_flags.simps) (simp add: Let_def)

lemma flags_y:
  "isIdentifierPart E (Num 121) \<Longrightarrow>
   scanRegularExpression_flags E ctx m (Num 121) p =
     (if m AND 8 \<noteq> 0 then Inl (report p ctx DuplicateRegExpFlag [''y''])
      else scanRegularExpression_flags E ctx (m OR 8) (nextCodePoint (advance p)) (advance p))"
  by (subst scanRegularExpression_flags.simps) (simp add: Let_def)

lemma flags_s:
  "isIdentifierPart E (Num 115) \<Longrightarrow>
   scanRegularExpression_flags E ctx m (Num 115) p =
     (if m AND 12 \<noteq> 0 then Inl (report p ctx DuplicateRegExpFlag [''s''])
      else scanRegularExpression_flags E ctx (m OR 12) (nextCodePoint (advance p)) (advance p))"
  by (subst scanRegularExpression_flags.simps) (simp add: Let_def)

lemma regexFlagBit_simps [simp]:
  "regexFlagBit 103 = 2" "regexFlagBit 105 = 1" "regexFlagBit 109 = 4"
  "regexFlagBit 117 = 16" "regexFlagBit 121 = 8" "regexFlagBit 115 = 12"
  by (simp_all add: regexFlagBit_def)

lemma flags_accept:
  assumes "isIdentifierPart E (Num c)" and "c \<in> {103, 105, 109, 117, 121, 115}"
    and "m AND regexFlagBit c = 0"
  shows "scanRegularExpression_flags E ctx m (Num c) p =
         scanRegularExpression_flags E ctx (m OR regexFlagBit c) (nextCodePoint (advance p)) (advance p)"
  using assms(2,1,3)
  by (elim insertE emptyE) (simp_all add: flags_g flags_i flags_m flags_u flags_y flags_s)

lemma flags_repeat_other:
  assumes "isIdentifierPart E (Num c)" and "c \<in> {105, 109, 117, 121, 115}"
    and "m AND regexFlagBit c \<noteq> 0"
  shows "\<exists>a. scanRegularExpression_flags E ctx m (Num c) p =
              Inl (report p ctx DuplicateRegExpFlag a)"
  using assms(2,1,3)
  by (elim insertE emptyE) (auto simp add: flags_i flags_m flags_u flags_y flags_s)

lemma flags_repeat_g:
  assumes "isIdentifierPart E (Num 103)" and "m AND 2 \<noteq> 0"
  shows "scanRegularExpression_flags E ctx m (Num 103) p =
         scanRegularExpression_flags E ctx (m OR 2)
           (nextCodePoint (advance (report p ctx DuplicateRegExpFlag [''g''])))
           (advance (report p ctx DuplicateRegExpFlag [''g'']))"
  using assms by (simp add: flags_g)

lemma slice_step:
  assumes "i < length s" and "i < j"
  shows "slice s i j = s ! i # slice s (Suc i) j"
proof -
  from assms(2) obtain k where k: "j - i = Suc k" "j - Suc i = k"
    by (cases "j - i") auto
  from assms(1) have "drop i s = s ! i # drop (Suc i) s"
    by (simp add: Cons_nth_drop_Suc)
  with k show ?thesis by (simp add: slice_def)
qed

lemma flags_step_clean:
  assumes res: "scanRegularExpression_flags E ctx m ch p = Inr p'"
    and clean: "diagnostics p' = diagnostics p" and idp: "isIdentifierPart E ch"
  shows "\<exists>c. ch = Num c \<and> c \<in> {103, 105, 109, 117, 121, 115} \<and> m AND regexFlagBit c = 0 \<and>
             scanRegularExpression_flags E ctx (m OR regexFlagBit c)
               (nextCodePoint (advance p)) (advance p) = Inr p'"
proof (cases "ch \<in> Num ` {103, 105, 109, 117, 121, 115}")
  case False
  from flags_unexpected [OF idp False] res show ?thesis by simp
next
  case True
  then obtain c where c: "ch = Num c" "c \<in> {103, 105, 109, 117, 121, 115}" by auto
  show ?thesis
  proof (cases "m AND regexFlagBit c = 0")
    case True
    with flags_accept [OF idp [unfolded c(1)] c(2) True] res c show ?thesis by auto
  next
    case False
    show ?thesis
    proof (cases "c = 103")
      case True
      with False have "m AND 2 \<noteq> 0" by (simp add: regexFlagBit_def)
      from flags_repeat_g [OF idp [unfolded c(1) True] this, of ctx p] res c True
      have "scanRegularExpression_flags E ctx (m OR 2)
           (nextCodePoint (advance (report p ctx DuplicateRegExpFlag [''g''])))
           (advance (report p ctx DuplicateRegExpFlag [''g''])) = Inr p'" by simp
      from flags_Inr [OF this] clean show ?thesis by auto
    next
      case False
      with c have "c \<in> {105, 109, 117, 121, 115}" by auto
      from flags_repeat_other [OF idp [unfolded c(1)] this \<open>m AND regexFlagBit c \<noteq> 0\<close>, of ctx p]
        res c show ?thesis by auto
    qed
  qed
qed

lemma flagBit_nonzero: "c \<in> {103, 105, 109, 117, 121, 115} \<Longrightarrow> regexFlagBit c \<noteq> 0"
  by (auto simp: regexFlagBit_def)

lemma flags_clean_distinct:
  assumes "scanRegularExpression_flags E ctx m ch p = Inr p'"
    and "diagnostics p' = diagnostics p" and "ch = charCodeAt (source p) (index p)"
  shows "set (slice (source p) (index p) (index p')) \<subseteq> {103, 105, 109, 117, 121, 115} \<and>
         distinct (slice (source p) (index p) (index p')) \<and>
         (\<forall>c \<in> set (slice (source p) (index p) (index p')). m AND regexFlagBit c = 0)"
  using assms
proof (induction "length (source p) - index p" arbitrary: p m ch rule: less_induct)
  case less
  show ?case
  proof (cases "isIdentifierPart E ch")
    case False
    with less.prems(1) have "p' = p" by (subst (asm) scanRegularExpression_flags.simps) simp
    then show ?thesis by (simp add: slice_def)
  next
    case True
    from flags_step_clean [OF less.prems(1,2) True] obtain c where
      c: "ch = Num c" "c \<in> {103, 105, 109, 117, 121, 115}" "m AND regexFlagBit c = 0"
      and rest: "scanRegularExpression_flags E ctx (m OR regexFlagBit c)
               (nextCodePoint (advance p)) (advance p) = Inr p'" by blast
    from c(1) less.prems(3) have i: "index p < length (source p)" "source p ! index p = c"
      by (auto simp: charCodeAt_def split: if_splits)
    from flags_Inr [OF rest] have le: "index p < index p'" by simp
    have "length (source (advance p)) - index (advance p) < length (source p) - index p"
      using i by simp
    from less.hyps [OF this rest] less.prems(2)
    have IH: "set (slice (source p) (Suc (index p)) (index p')) \<subseteq> {103, 105, 109, 117, 121, 115}"
      "distinct (slice (source p) (Suc (index p)) (index p'))"
      "\<forall>c' \<in> set (slice (source p) (Suc (index p)) (index p')).
          (m OR regexFlagBit c) AND regexFlagBit c' = 0"
      by simp_all
    have split: "\<And>c'. (m OR regexFlagBit c) AND regexFlagBit c' = 0 \<Longrightarrow>
        m AND regexFlagBit c' = 0 \<and> regexFlagBit c AND regexFlagBit c' = 0"
      by (simp add: bit.conj_disj_distrib2 or_eq_0_iff)
    have notin: "c \<notin> set (slice (source p) (Suc (index p)) (index p'))"
    proof
      assume "c \<in> set (slice (source p) (Suc (index p)) (index p'))"
      with IH(3) split have "regexFlagBit c AND regexFlagBit c = 0" by blast
      with flagBit_nonzero [OF c(2)] show False by simp
    qed
    have eq: "slice (source p) (index p) (index p') =
              c # slice (source p) (Suc (index p)) (index p')"
      using slice_step [OF i(1) le] i(2) by simp
    have "m AND regexFlagBit c' = 0" if "c' \<in> set (slice (source p) (Suc (index p)) (index p'))" for c'
      using IH(3) split that by blast
    with IH(1,2) notin c(2,3) show ?thesis unfolding eq by simp
  qed
qed

lemma flags_stop:
  "\<not> isIdentifierPart E ch \<Longrightarrow> scanRegularExpression_flags E ctx m ch p = Inr p"
  by (subst scanRegularExpression_flags.simps) simp

lemma body_a_slash:
  "scanRegularExpression_body {} 0 (advance (create (47 # 97 # 47 # fl))) =
     Inr (advance (advance (advance (create (47 # 97 # 47 # fl)))))"
  apply (subst scanRegularExpression_body.simps)
  apply (simp add: create_def charCodeAt_def Let_def)
  apply (subst scanRegularExpression_body.simps)
  apply (simp add: charCodeAt_def Let_def)
  done

subsection \<open>The iterations of the flag loop\<close>

lemma flags_next_Some:
  assumes "scanRegularExpression_flags_next E ctx m ch q = Some (m', q')"
  shows "scanRegularExpression_flags E ctx m ch q =
         scanRegularExpression_flags E ctx m' (nextCodePoint q') q'"
proof -
  from assms have idp: "isIdentifierPart E ch"
    by (auto simp: scanRegularExpression_flags_next_def split: if_splits)
  from assms idp show ?thesis
    by (auto simp: scanRegularExpression_flags_next_def flags_g flags_i flags_m flags_u flags_y
        flags_s Let_def split: if_splits)
qed

lemma flags_next_shape:
  assumes "scanRegularExpression_flags_next E ctx m ch q = Some (m', q')"
  shows "\<exists>c. ch = Num c \<and> c \<in> {103, 105, 109, 117, 121, 115} \<and> m' = m OR regexFlagBit c \<and>
             source q' = source q \<and> index q' = index q + 1 \<and>
             nextCodePoint q' = charCodeAt (source q) (index q + 1)"
  using assms
  by (auto simp: scanRegularExpression_flags_next_def split: if_splits)

lemma flags_reaches_result:
  assumes "scanRegularExpression_flags_reaches E ctx p1 m ch q"
  shows "scanRegularExpression_flags E ctx RegexFlags_Empty (nextCodePoint p1) p1 =
         scanRegularExpression_flags E ctx m ch q"
  using assms
proof (induction rule: scanRegularExpression_flags_reaches.induct)
  case start
  show ?case by simp
next
  case (iterate m ch q m' q')
  with flags_next_Some [OF iterate.hyps(2)] show ?case by simp
qed

lemma slice_snoc:
  assumes "i \<le> j" and "j < length s"
  shows "slice s i (Suc j) = slice s i j @ [s ! j]"
proof -
  have "take (Suc j - i) (drop i s) = take (j - i) (drop i s) @ [drop i s ! (j - i)]"
    using assms by (simp add: Suc_diff_le take_Suc_conv_app_nth)
  with assms show ?thesis by (simp add: slice_def)
qed

lemma word_or_and_keep:
  fixes m b b' :: "32 word"
  shows "(m OR b) AND b = b" and "m AND b' = b' \<Longrightarrow> (m OR b) AND b' = b'"
  by (auto simp: bit_eq_iff bit_and_iff bit_or_iff)

lemma flags_reaches_invariant:
  assumes "scanRegularExpression_flags_reaches E ctx p1 m ch q" and "cacheConsistent p1"
  shows "source q = source p1 \<and> index p1 \<le> index q \<and>
         ch = charCodeAt (source q) (index q) \<and>
         (\<forall>c \<in> set (slice (source p1) (index p1) (index q)).
            c \<in> {103, 105, 109, 117, 121, 115} \<and> m AND regexFlagBit c = regexFlagBit c)"
  using assms
proof (induction rule: scanRegularExpression_flags_reaches.induct)
  case start
  then show ?case by (simp add: cacheConsistent_def charCodeAt_def slice_def)
next
  case (iterate m ch q m' q')
  from iterate.IH [OF iterate.prems] have
    src: "source q = source p1" and le: "index p1 \<le> index q"
    and cache: "ch = charCodeAt (source q) (index q)"
    and old: "\<And>c. c \<in> set (slice (source p1) (index p1) (index q)) \<Longrightarrow>
            c \<in> {103, 105, 109, 117, 121, 115} \<and> m AND regexFlagBit c = regexFlagBit c"
    by auto
  from flags_next_shape [OF iterate.hyps(2)] obtain c where
    c: "ch = Num c" "c \<in> {103, 105, 109, 117, 121, 115}" "m' = m OR regexFlagBit c"
    and q': "source q' = source q" "index q' = index q + 1"
      "nextCodePoint q' = charCodeAt (source q) (index q + 1)" by blast
  from c(1) cache have i: "index q < length (source q)" "source q ! index q = c"
    by (auto simp: charCodeAt_def split: if_splits)
  have sl: "slice (source p1) (index p1) (index q') =
            slice (source p1) (index p1) (index q) @ [c]"
    using slice_snoc [OF le, of "source p1"] i src q'(2) by simp
  have "c' \<in> {103, 105, 109, 117, 121, 115} \<and> m' AND regexFlagBit c' = regexFlagBit c'"
    if "c' \<in> set (slice (source p1) (index p1) (index q'))" for c'
  proof (cases "c' = c")
    case True
    with c(2,3) show ?thesis by (simp add: word_or_and_keep(1))
  next
    case False
    with that sl have "c' \<in> set (slice (source p1) (index p1) (index q))" by simp
    from old [OF this] c(3) show ?thesis by (simp add: word_or_and_keep(2))
  qed
  with src le q' show ?case by simp
qed

lemma body_Inr_cache:
  "scanRegularExpression_body ctx st p = Inr p1 \<Longrightarrow> cacheConsistent p1"
proof (induction ctx st p rule: scanRegularExpression_body.induct)
  case (1 ctx st p)
  note eq = scanRegularExpression_body.simps [of ctx st p]
  from "1.prems" "1.IH"(1) [OF refl refl] "1.IH"(2) [OF refl refl] show ?case
    unfolding eq
    by (auto simp: Let_def cacheConsistent_def charCodeAt_def split: if_splits)
qed


lemma word_and_or_same:
  fixes m b :: "32 word"
  shows "m AND b = b \<Longrightarrow> m OR b = m"
  by (auto simp: bit_eq_iff bit_and_iff bit_or_iff)

section \<open>The iterations of the loop that return Error\<close>

lemma ret_eq: "ret r = Return t p' \<longleftrightarrow> r = (t, p')"
  by (cases r) (auto simp: ret_def)

lemma never_Error:
  "scanSingleToken_LineFeed l p \<noteq> Return t p'"
  "scanSingleToken_CarriageReturn p \<noteq> Return t p'"
  "scanSingleToken_LessThan E ctx l p \<noteq> Return Error p'"
  "scanSingleToken_QuestionMark ctx p \<noteq> Return Error p'"
  "scanSingleToken_Assign p \<noteq> Return Error p'"
  "scanSingleToken_Negate p \<noteq> Return Error p'"
  "scanSingleToken_Modulo p \<noteq> Return Error p'"
  "scanSingleToken_Multiply p \<noteq> Return Error p'"
  "scanSingleToken_BitwiseXor p \<noteq> Return Error p'"
  "scanSingleToken_Add p \<noteq> Return Error p'"
  "scanSingleToken_BitwiseOr p \<noteq> Return Error p'"
  "scanSingleToken_GreaterThan p \<noteq> Return Error p'"
  "scanSingleToken_BitwiseAnd p \<noteq> Return Error p'"
  by (simp_all add: scanSingleToken_LineFeed_def scanSingleToken_CarriageReturn_def
      scanSingleToken_LessThan_def scanSingleToken_QuestionMark_def
      scanSingleToken_Assign_def scanSingleToken_Negate_def scanSingleToken_Modulo_def
      scanSingleToken_Multiply_def scanSingleToken_BitwiseXor_def scanSingleToken_Add_def
      scanSingleToken_BitwiseOr_def scanSingleToken_GreaterThan_def
      scanSingleToken_BitwiseAnd_def Let_def)

lemma collaboratorsReportD:
  assumes "collaboratorsReport E"
  shows "scanIdentifierOrKeyword E p ctx k = (Error, q) \<Longrightarrow>
           length (diagnostics p) < length (diagnostics q)"
    and "scanIdentifierSlowPath E p ctx v k = (Error, q) \<Longrightarrow>
           length (diagnostics p) < length (diagnostics q)"
    and "scanUnicodeEscapeIdStart E p ctx = (Error, q) \<Longrightarrow>
           length (diagnostics p) < length (diagnostics q)"
    and "scanStringLiteral E p ctx c = (Error, q) \<Longrightarrow>
           length (diagnostics p) < length (diagnostics q)"
    and "scanTemplate E p ctx = (Error, q) \<Longrightarrow>
           length (diagnostics p) < length (diagnostics q)"
    and "scanNumber E p ctx a b = (Error, q) \<Longrightarrow>
           length (diagnostics p) < length (diagnostics q)"
    and "scanLeadingZero E p ctx c = (Error, q) \<Longrightarrow>
           length (diagnostics p) < length (diagnostics q)"
    and "fst (skipMultiLineComment E p ctx) < 1 \<Longrightarrow>
           length (diagnostics p) < length (diagnostics (snd (skipMultiLineComment E p ctx)))"
    and "length (diagnostics p) \<le> length (diagnostics (snd (skipMultiLineComment E p ctx)))"
    and "length (diagnostics p) \<le> length (diagnostics (skipSingleLineComment E p))"
  using assms unfolding collaboratorsReport_def by auto

lemma Period_Error:
  assumes "collaboratorsReport E" and "scanSingleToken_Period E ctx p = Return Error p'"
  shows "length (diagnostics p) < length (diagnostics p')"
  using assms(2) collaboratorsReportD(6) [OF assms(1), of "advance p" ctx 0 1 p']
  by (auto simp: scanSingleToken_Period_def Let_def ret_eq split: if_splits)

lemma Subtract_Error:
  "scanSingleToken_Subtract E ctx sol l p = Return Error p' \<Longrightarrow>
     length (diagnostics p) < length (diagnostics p')"
  by (auto simp: scanSingleToken_Subtract_def Let_def split: if_splits)

lemma Divide_Error:
  assumes "collaboratorsReport E" and "scanSingleToken_Divide E ctx l p = Return Error p'"
  shows "length (diagnostics p) < length (diagnostics p')"
  using assms(2) collaboratorsReportD(8) [OF assms(1), of "advance (advance p)" ctx]
    scanRegularExpression_Error [of E "advance p" ctx p']
  by (auto simp: scanSingleToken_Divide_def Let_def ret_eq split: if_splits)

lemma nonASCII_Error:
  assumes "collaboratorsReport E" and "scanSingleToken_nonASCII E ctx l p = Return Error p'"
  shows "length (diagnostics p) < length (diagnostics p')"
  using assms(2)
  by (auto simp: scanSingleToken_nonASCII_def Let_def ret_eq split: if_splits
      dest: collaboratorsReportD(2) [OF assms(1)])

lemma iteration_Return_Error:
  assumes r: "collaboratorsReport E"
    and step: "scanSingleToken_iteration E ctx sol l p = Return Error p'"
  shows "length (diagnostics p) < length (diagnostics p') \<or>
         (\<exists>c. nextCodePoint p = Num c \<and> c \<le> 0x7e \<and> firstCharKinds ! c = Error \<and>
              p' = advance (p\<lparr>tokenPos := index p\<rparr>))"
proof (cases "nextCodePoint p")
  case NaN
  with step nonASCII_Error [OF r, of ctx l "p\<lparr>tokenPos := index p\<rparr>" p'] show ?thesis
    by (simp add: scanSingleToken_iteration_def Let_def num_le_def)
next
  case (Num c)
  note D = collaboratorsReportD [OF r]
  show ?thesis
  proof (cases "c \<le> 0x7e")
    case False
    with Num step nonASCII_Error [OF r, of ctx l "p\<lparr>tokenPos := index p\<rparr>" p'] show ?thesis
      by (simp add: scanSingleToken_iteration_def Let_def num_le_def)
  next
    case True
    with Num step show ?thesis
      using nonASCII_Error [OF r, of ctx l "p\<lparr>tokenPos := index p\<rparr>" p']
        Period_Error [OF r, of ctx "p\<lparr>tokenPos := index p\<rparr>" p']
        Divide_Error [OF r, of ctx l "p\<lparr>tokenPos := index p\<rparr>" p']
        Subtract_Error [of E ctx sol l "p\<lparr>tokenPos := index p\<rparr>" p']
      by (cases "firstCharKinds ! c")
         (auto simp: scanSingleToken_iteration_def Let_def num_le_def toInt32_def ret_eq
            never_Error dest: D(1,3,4,5,6,7))
  qed
qed

lemma iteration_Continue_diagnostics:
  assumes r: "collaboratorsReport E"
    and step: "scanSingleToken_iteration E ctx sol l p = Continue l' p'"
  shows "length (diagnostics p) \<le> length (diagnostics p')"
  using iteration_Continue_cases [OF step]
proof (elim disjE)
  assume "p' = advance (p\<lparr>tokenPos := index p\<rparr>)"
  then show ?thesis by simp
next
  assume "scanSingleToken_LineFeed l (p\<lparr>tokenPos := index p\<rparr>) = Continue l' p'"
  from LineFeed_Continue [OF this] show ?thesis by simp
next
  assume "scanSingleToken_CarriageReturn (p\<lparr>tokenPos := index p\<rparr>) = Continue l' p'"
  from CarriageReturn_Continue [OF this] show ?thesis by simp
next
  assume "scanSingleToken_LessThan E ctx l (p\<lparr>tokenPos := index p\<rparr>) = Continue l' p'"
  from LessThan_Continue [OF this] obtain q where
    "p' = skipSingleLineComment E q" "diagnostics q = diagnostics (p\<lparr>tokenPos := index p\<rparr>)"
    by auto
  with collaboratorsReportD(10) [OF r, of q] show ?thesis by simp
next
  assume "scanSingleToken_Subtract E ctx sol l (p\<lparr>tokenPos := index p\<rparr>) = Continue l' p'"
  from Subtract_Continue [OF this] obtain q where
    "p' = skipSingleLineComment E q" "diagnostics q = diagnostics (p\<lparr>tokenPos := index p\<rparr>)"
    by auto
  with collaboratorsReportD(10) [OF r, of q] show ?thesis by simp
next
  assume "scanSingleToken_Divide E ctx l (p\<lparr>tokenPos := index p\<rparr>) = Continue l' p'"
  from Divide_Continue [OF this] obtain q where
    q: "p' = skipSingleLineComment E q \<or> (\<exists>c. p' = snd (skipMultiLineComment E q c))"
    "diagnostics q = diagnostics (p\<lparr>tokenPos := index p\<rparr>)" by auto
  from q(1) show ?thesis
  proof
    assume "p' = skipSingleLineComment E q"
    with collaboratorsReportD(10) [OF r, of q] q(2) show ?thesis by simp
  next
    assume "\<exists>c. p' = snd (skipMultiLineComment E q c)"
    then obtain c where "p' = snd (skipMultiLineComment E q c)" ..
    with collaboratorsReportD(9) [OF r, of q c] q(2) show ?thesis by simp
  qed
next
  assume "scanSingleToken_nonASCII E ctx l (p\<lparr>tokenPos := index p\<rparr>) = Continue l' p'"
  from nonASCII_Continue [OF this] show ?thesis by simp
qed

lemma loop_Error_reaches:
  assumes res: "scanSingleToken_loop E ctx sol l p = Some y"
  shows "collaboratorsReport E \<longrightarrow> fst y = Error \<longrightarrow>
          (length (diagnostics p) < length (diagnostics (snd y)) \<or>
           (\<exists>l' q c. scanSingleToken_reaches E ctx sol l p l' q \<and> index q < length' q \<and>
                  nextCodePoint q = Num c \<and> c \<le> 0x7e \<and> firstCharKinds ! c = Error \<and>
                  scanSingleToken_iteration E ctx sol l' q = Return Error (snd y) \<and>
                  snd y = advance (q\<lparr>tokenPos := index q\<rparr>)))"
proof (rule scanSingleToken_loop.raw_induct [where P = "\<lambda>E ctx sol l p y.
          collaboratorsReport E \<longrightarrow> fst y = Error \<longrightarrow>
          (length (diagnostics p) < length (diagnostics (snd y)) \<or>
           (\<exists>l' q c. scanSingleToken_reaches E ctx sol l p l' q \<and> index q < length' q \<and>
                  nextCodePoint q = Num c \<and> c \<le> 0x7e \<and> firstCharKinds ! c = Error \<and>
                  scanSingleToken_iteration E ctx sol l' q = Return Error (snd y) \<and>
                  snd y = advance (q\<lparr>tokenPos := index q\<rparr>)))", OF _ res])
  fix loop :: "Collaborators \<Rightarrow> Context \<Rightarrow> bool \<Rightarrow> nat \<Rightarrow> ParserState \<Rightarrow> (Token \<times> ParserState) option"
  fix E ctx sol l p y
  assume IH: "\<And>E ctx sol l p y. loop E ctx sol l p = Some y \<Longrightarrow>
          collaboratorsReport E \<longrightarrow> fst y = Error \<longrightarrow>
          (length (diagnostics p) < length (diagnostics (snd y)) \<or>
           (\<exists>l' q c. scanSingleToken_reaches E ctx sol l p l' q \<and> index q < length' q \<and>
                  nextCodePoint q = Num c \<and> c \<le> 0x7e \<and> firstCharKinds ! c = Error \<and>
                  scanSingleToken_iteration E ctx sol l' q = Return Error (snd y) \<and>
                  snd y = advance (q\<lparr>tokenPos := index q\<rparr>)))"
    and unf: "(if index p < length' p
      then case scanSingleToken_iteration E ctx sol l p of
           Return t p' \<Rightarrow> Some (t, p')
           | Continue lastIsCR' p' \<Rightarrow> loop E ctx sol lastIsCR' p'
      else Some (EndOfSource, p)) = Some y"
  show "collaboratorsReport E \<longrightarrow> fst y = Error \<longrightarrow>
          (length (diagnostics p) < length (diagnostics (snd y)) \<or>
           (\<exists>l' q c. scanSingleToken_reaches E ctx sol l p l' q \<and> index q < length' q \<and>
                  nextCodePoint q = Num c \<and> c \<le> 0x7e \<and> firstCharKinds ! c = Error \<and>
                  scanSingleToken_iteration E ctx sol l' q = Return Error (snd y) \<and>
                  snd y = advance (q\<lparr>tokenPos := index q\<rparr>)))"
  proof (intro impI)
    assume r: "collaboratorsReport E" and e: "fst y = Error"
    show "length (diagnostics p) < length (diagnostics (snd y)) \<or>
           (\<exists>l' q c. scanSingleToken_reaches E ctx sol l p l' q \<and> index q < length' q \<and>
                  nextCodePoint q = Num c \<and> c \<le> 0x7e \<and> firstCharKinds ! c = Error \<and>
                  scanSingleToken_iteration E ctx sol l' q = Return Error (snd y) \<and>
                  snd y = advance (q\<lparr>tokenPos := index q\<rparr>))"
    proof (cases "index p < length' p")
      case False
      with unf e show ?thesis by auto
    next
      case True
      show ?thesis
      proof (cases "scanSingleToken_iteration E ctx sol l p")
        case (Return t q)
        with True unf e have it: "scanSingleToken_iteration E ctx sol l p = Return Error (snd y)"
          by auto
        from iteration_Return_Error [OF r it] show ?thesis
        proof
          assume "length (diagnostics p) < length (diagnostics (snd y))"
          then show ?thesis ..
        next
          assume "\<exists>c. nextCodePoint p = Num c \<and> c \<le> 0x7e \<and> firstCharKinds ! c = Error \<and>
                     snd y = advance (p\<lparr>tokenPos := index p\<rparr>)"
          with True it scanSingleToken_reaches.here [of E ctx sol l p] show ?thesis by blast
        qed
      next
        case (Continue l1 q1)
        with True unf have "loop E ctx sol l1 q1 = Some y" by simp
        from IH [OF this] r e
        have "length (diagnostics q1) < length (diagnostics (snd y)) \<or>
           (\<exists>l' q c. scanSingleToken_reaches E ctx sol l1 q1 l' q \<and> index q < length' q \<and>
                  nextCodePoint q = Num c \<and> c \<le> 0x7e \<and> firstCharKinds ! c = Error \<and>
                  scanSingleToken_iteration E ctx sol l' q = Return Error (snd y) \<and>
                  snd y = advance (q\<lparr>tokenPos := index q\<rparr>))" by blast
        then show ?thesis
        proof
          assume "length (diagnostics q1) < length (diagnostics (snd y))"
          with iteration_Continue_diagnostics [OF r Continue] show ?thesis by simp
        next
          assume "\<exists>l' q c. scanSingleToken_reaches E ctx sol l1 q1 l' q \<and> index q < length' q \<and>
                  nextCodePoint q = Num c \<and> c \<le> 0x7e \<and> firstCharKinds ! c = Error \<and>
                  scanSingleToken_iteration E ctx sol l' q = Return Error (snd y) \<and>
                  snd y = advance (q\<lparr>tokenPos := index q\<rparr>)"
          then obtain l' q c where
            *: "scanSingleToken_reaches E ctx sol l1 q1 l' q" "index q < length' q"
               "nextCodePoint q = Num c" "c \<le> 0x7e" "firstCharKinds ! c = Error"
               "scanSingleToken_iteration E ctx sol l' q = Return Error (snd y)"
               "snd y = advance (q\<lparr>tokenPos := index q\<rparr>)" by blast
          from scanSingleToken_reaches.continue [OF True Continue *(1)]
          have "scanSingleToken_reaches E ctx sol l p l' q" .
          with *(2-7) show ?thesis by blast
        qed
      qed
    qed
  qed
qed

section \<open>The instance satisfies the hypotheses\<close>

lemma spec_single_frame:
  "index p \<le> index (spec_skipSingleLineComment p) \<and>
   length' (spec_skipSingleLineComment p) = length' p \<and>
   diagnostics (spec_skipSingleLineComment p) = diagnostics p"
proof (induction p rule: spec_skipSingleLineComment.induct)
  case (1 p)
  note eq = spec_skipSingleLineComment.simps [of p]
  show ?case
  proof (cases "index p < length (source p) \<and> \<not> isLineTerminator (nextCodePoint p)")
    case True
    with "1.IH" show ?thesis unfolding eq by simp
  next
    case False
    then show ?thesis unfolding eq by auto
  qed
qed

lemma spec_multi_frame:
  "index p \<le> index (snd (spec_skipMultiLineComment p ctx)) \<and>
   length' (snd (spec_skipMultiLineComment p ctx)) = length' p \<and>
   length (diagnostics p) \<le> length (diagnostics (snd (spec_skipMultiLineComment p ctx))) \<and>
   (fst (spec_skipMultiLineComment p ctx) < 1 \<longrightarrow>
      length (diagnostics p) < length (diagnostics (snd (spec_skipMultiLineComment p ctx))))"
proof (induction p ctx rule: spec_skipMultiLineComment.induct)
  case (1 p ctx)
  note eq = spec_skipMultiLineComment.simps [of p ctx]
  from "1.IH" show ?case unfolding eq by (auto simp: Let_def)
qed

lemma instance_reports: "collaboratorsReport instanceCollaborators"
  using spec_single_frame spec_multi_frame
  by (simp add: collaboratorsReport_def instanceCollaborators_def oneUnit_def)

lemma instance_single:
  "index q \<le> index (skipSingleLineComment instanceCollaborators q) \<and>
   length' (skipSingleLineComment instanceCollaborators q) = length' q"
  using spec_single_frame [of q] by (simp add: instanceCollaborators_def)

lemma instance_multi:
  "index q \<le> index (snd (skipMultiLineComment instanceCollaborators q c)) \<and>
   length' (snd (skipMultiLineComment instanceCollaborators q c)) = length' q"
  using spec_multi_frame [of q c] by (simp add: instanceCollaborators_def)

lemma scanSingleToken_space_at:
  "\<exists>p'. scanSingleToken instanceCollaborators (create [32, 64]) {} = Some (Error, p') \<and>
        diagnostics p' = diagnostics (create [32, 64]) \<and> index p' = 2"
  apply (simp add: scanSingleToken_def create_def)
  apply (subst scanSingleToken_loop.simps)
  apply (simp add: iteration_defs)
  apply (subst scanSingleToken_loop.simps)
  apply (simp add: iteration_defs)
  done

lemma instance_flags_reach_gig:
  "scanRegularExpression_flags_reaches instanceCollaborators {}
     (advance (advance (advance (create [47, 97, 47, 103, 105, 103])))) 3 (Num 103)
     (advance (advance (advance (advance (advance (create [47, 97, 47, 103, 105, 103]))))))"
proof -
  let ?p1 = "advance (advance (advance (create [47, 97, 47, 103, 105, 103])))"
  have id: "isIdentifierPart instanceCollaborators (Num 103)"
    "isIdentifierPart instanceCollaborators (Num 105)"
    by (simp_all add: instanceCollaborators_def asciiIdentifierPart_def)
  have ca: "nextCodePoint ?p1 = Num 103" and cb: "nextCodePoint (advance ?p1) = Num 105"
    and cc: "nextCodePoint (advance (advance ?p1)) = Num 103"
    by (simp_all add: create_def charCodeAt_def)
  have n0: "scanRegularExpression_flags_next instanceCollaborators {} 0 (nextCodePoint ?p1) ?p1 =
            Some (2, advance ?p1)"
    unfolding ca using id by (simp add: scanRegularExpression_flags_next_def)
  have n1: "scanRegularExpression_flags_next instanceCollaborators {} 2
              (nextCodePoint (advance ?p1)) (advance ?p1) = Some (3, advance (advance ?p1))"
    unfolding cb using id by (simp add: scanRegularExpression_flags_next_def)
  from scanRegularExpression_flags_reaches.iterate
         [OF scanRegularExpression_flags_reaches.iterate
               [OF scanRegularExpression_flags_reaches.start n0] n1]
  show ?thesis unfolding cc .
qed

lemma instance_flags_reach_imm:
  "scanRegularExpression_flags_reaches instanceCollaborators {}
     (advance (advance (advance (create [47, 97, 47, 105, 109, 109])))) 5 (Num 109)
     (advance (advance (advance (advance (advance (create [47, 97, 47, 105, 109, 109]))))))"
proof -
  let ?p1 = "advance (advance (advance (create [47, 97, 47, 105, 109, 109])))"
  have id: "isIdentifierPart instanceCollaborators (Num 105)"
    "isIdentifierPart instanceCollaborators (Num 109)"
    by (simp_all add: instanceCollaborators_def asciiIdentifierPart_def)
  have ca: "nextCodePoint ?p1 = Num 105" and cb: "nextCodePoint (advance ?p1) = Num 109"
    and cc: "nextCodePoint (advance (advance ?p1)) = Num 109"
    by (simp_all add: create_def charCodeAt_def)
  have n0: "scanRegularExpression_flags_next instanceCollaborators {} 0 (nextCodePoint ?p1) ?p1 =
            Some (1, advance ?p1)"
    unfolding ca using id by (simp add: scanRegularExpression_flags_next_def)
  have n1: "scanRegularExpression_flags_next instanceCollaborators {} 1
              (nextCodePoint (advance ?p1)) (advance ?p1) = Some (5, advance (advance ?p1))"
    unfolding cb using id by (simp add: scanRegularExpression_flags_next_def)
  from scanRegularExpression_flags_reaches.iterate
         [OF scanRegularExpression_flags_reaches.iterate
               [OF scanRegularExpression_flags_reaches.start n0] n1]
  show ?thesis unfolding cc .
qed

section \<open>The claims\<close>

text \<open>
  C1 (the code departs from the claim). The claim: \<^verbatim>\<open><!--\<close> is an HTML comment only when
  the \<open>Module\<close> bit is not set; in module context the scanner returns \<open>LessThan\<close>.
  The \<^verbatim>\<open>case Token.LessThan\<close> of the code never reads the context: on the source
  \<^verbatim>\<open><!--x\<close> with the \<open>Module\<close> bit set, whatever the collaborators are, the iteration
  hands the state to \<^verbatim>\<open>skipSingleLineComment\<close> and continues the loop; with the comment
  skipper of the spec the whole source is consumed and the token is \<open>EndOfSource\<close>.
\<close>

theorem html_open_comment_ignores_Module:
  "scanSingleToken_iteration E (insert Module ctx) isStartOfLine lastIsCR
       (create [60, 33, 45, 45, 120]) =
     Continue lastIsCR
       (skipSingleLineComment E
          ((create [60, 33, 45, 45, 120])\<lparr>index := 3, column := 4, nextCodePoint := Num 33\<rparr>))
   \<and> (\<exists>p'. nextToken instanceCollaborators (create [60, 33, 45, 45, 120]) {Module} =
               Some (EndOfSource, p') \<and> index p' = 5)"
proof
  show "scanSingleToken_iteration E (insert Module ctx) isStartOfLine lastIsCR
       (create [60, 33, 45, 45, 120]) =
     Continue lastIsCR
       (skipSingleLineComment E
          ((create [60, 33, 45, 45, 120])\<lparr>index := 3, column := 4, nextCodePoint := Num 33\<rparr>))"
    apply (simp add: create_def iteration_defs scanSingleToken_LessThan_def)
    apply (simp add: numeral_3_eq_3)
    done
  show "\<exists>p'. nextToken instanceCollaborators (create [60, 33, 45, 45, 120]) {Module} =
               Some (EndOfSource, p') \<and> index p' = 5"
    apply (simp add: nextToken_def scanSingleToken_def create_def)
    apply (subst scanSingleToken_loop.simps)
    apply (simp add: iteration_defs scanSingleToken_LessThan_def instanceCollaborators_def
        isLineTerminator_def spec_skipSingleLineComment.simps)
    apply (subst scanSingleToken_loop.simps)
    apply (simp add: iteration_defs)
    done
qed

text \<open>
  C2 (corrected). The claim: whenever \<^verbatim>\<open>scanSingleToken\<close> returns \<open>Error\<close> a diagnostic
  has been recorded during the call. The table \<^verbatim>\<open>firstCharKinds\<close> maps the ASCII control
  characters, \<^verbatim>\<open>@\<close> and NUL to \<open>Error\<close>, and the \<^verbatim>\<open>switch\<close> lists \<^verbatim>\<open>case Token.Error\<close> with
  the one-unit punctuators: the unit is consumed and \<open>Error\<close> returned with no report.
  On the source \<^verbatim>\<open>@\<close> the token is \<open>Error\<close> and the diagnostics are unchanged.
\<close>

theorem at_sign_error_without_diagnostic:
  "\<exists>p'. scanSingleToken instanceCollaborators (create [64]) {} = Some (Error, p') \<and>
        diagnostics p' = diagnostics (create [64]) \<and> index p' = 1"
  apply (simp add: scanSingleToken_def create_def)
  apply (subst scanSingleToken_loop.simps)
  apply (simp add: iteration_defs)
  done

text \<open>
  C2 as amended: when \<^verbatim>\<open>scanSingleToken\<close> returns \<open>Error\<close>, either a diagnostic has been
  recorded during the call, or the iteration of the loop that returns is one that
  starts, after iterations that all \<^verbatim>\<open>continue\<close>, inside the source on an ASCII code unit
  whose entry in \<^verbatim>\<open>firstCharKinds\<close> is \<open>Error\<close>: that unit is consumed by \<^verbatim>\<open>advance\<close> and
  \<open>Error\<close> returned without a diagnostic. The scanners that are not among the sources
  are taken to record a diagnostic when they return \<open>Error\<close> (\<open>collaboratorsReport\<close>). No
  statement of scan.ts or regexp.ts throws: every path of the model returns a value.
\<close>

theorem error_token_reported_or_table_error:
  assumes "collaboratorsReport E" and "scanSingleToken E p ctx = Some (Error, p')"
  shows "length (diagnostics p) < length (diagnostics p') \<or>
         (\<exists>l q c. scanSingleToken_reaches E ctx (index p = 0) 0 p l q \<and> index q < length' q \<and>
                nextCodePoint q = Num c \<and> c \<le> 0x7e \<and> firstCharKinds ! c = Error \<and>
                scanSingleToken_iteration E ctx (index p = 0) l q = Return Error p' \<and>
                p' = advance (q\<lparr>tokenPos := index q\<rparr>))"
  using loop_Error_reaches [OF assms(2) [unfolded scanSingleToken_def]] assms(1) by simp


theorem error_token_reported_or_table_error_witness:
  "collaboratorsReport instanceCollaborators \<and>
   (\<exists>p'. scanSingleToken instanceCollaborators (create [32, 64]) {} = Some (Error, p') \<and>
         diagnostics p' = diagnostics (create [32, 64]) \<and>
         (\<exists>l q c. scanSingleToken_reaches instanceCollaborators {} True 0 (create [32, 64]) l q \<and>
                index q < length' q \<and> nextCodePoint q = Num c \<and> c \<le> 0x7e \<and>
                firstCharKinds ! c = Error \<and>
                scanSingleToken_iteration instanceCollaborators {} True l q = Return Error p' \<and>
                p' = advance (q\<lparr>tokenPos := index q\<rparr>)))"
proof -
  from scanSingleToken_space_at obtain p' where
    r: "scanSingleToken instanceCollaborators (create [32, 64]) {} = Some (Error, p')"
    and d: "diagnostics p' = diagnostics (create [32, 64])" by blast
  have i: "(index (create [32, 64]) = 0) = True" by (simp add: create_def)
  from error_token_reported_or_table_error [OF instance_reports r] d
  have "\<exists>l q c. scanSingleToken_reaches instanceCollaborators {} True 0 (create [32, 64]) l q \<and>
                index q < length' q \<and> nextCodePoint q = Num c \<and> c \<le> 0x7e \<and>
                firstCharKinds ! c = Error \<and>
                scanSingleToken_iteration instanceCollaborators {} True l q = Return Error p' \<and>
                p' = advance (q\<lparr>tokenPos := index q\<rparr>)"
    unfolding i by simp
  with instance_reports r d show ?thesis by blast
qed


text \<open>
  C3 (the code departs from the claim). The claim: a CR immediately followed by an LF
  counts as one line terminator, so the source CR LF ends with line 2 and column 0. In
  the code \<^verbatim>\<open>case Token.CarriageReturn\<close> sets \<^verbatim>\<open>lastIsCR\<close> and falls through into the
  block of \<^verbatim>\<open>case Token.LineFeed\<close>, which resets \<^verbatim>\<open>lastIsCR\<close> to 0 before the loop
  continues; the LF then finds the flag cleared and bumps the line again. For every
  value of the collaborators and every context, \<^verbatim>\<open>nextToken\<close> on CR LF ends with line 3,
  while a lone CR and a lone LF each end with line 2.
\<close>

theorem crlf_bumps_line_twice:
  "(\<exists>p'. nextToken E (create [13, 10]) ctx = Some (EndOfSource, p') \<and>
          index p' = 2 \<and> line p' = 3 \<and> column p' = 0)
   \<and> (\<exists>p'. nextToken E (create [13]) ctx = Some (EndOfSource, p') \<and> line p' = 2)
   \<and> (\<exists>p'. nextToken E (create [10]) ctx = Some (EndOfSource, p') \<and> line p' = 2)"
proof (intro conjI)
  show "\<exists>p'. nextToken E (create [13, 10]) ctx = Some (EndOfSource, p') \<and>
          index p' = 2 \<and> line p' = 3 \<and> column p' = 0"
    apply (simp add: nextToken_def scanSingleToken_def create_def)
    apply (subst scanSingleToken_loop.simps)
    apply (simp add: iteration_defs)
    apply (subst scanSingleToken_loop.simps)
    apply (simp add: iteration_defs)
    apply (subst scanSingleToken_loop.simps)
    apply (simp add: iteration_defs)
    done
  show "\<exists>p'. nextToken E (create [13]) ctx = Some (EndOfSource, p') \<and> line p' = 2"
    apply (simp add: nextToken_def scanSingleToken_def create_def)
    apply (subst scanSingleToken_loop.simps)
    apply (simp add: iteration_defs)
    apply (subst scanSingleToken_loop.simps)
    apply (simp add: iteration_defs)
    done
  show "\<exists>p'. nextToken E (create [10]) ctx = Some (EndOfSource, p') \<and> line p' = 2"
    apply (simp add: nextToken_def scanSingleToken_def create_def)
    apply (subst scanSingleToken_loop.simps)
    apply (simp add: iteration_defs)
    apply (subst scanSingleToken_loop.simps)
    apply (simp add: iteration_defs)
    done
qed

text \<open>
  C4 (corrected). The claim: the flag loop accepts each of \<^verbatim>\<open>g i m u y s d\<close> at most once.
  The \<^verbatim>\<open>switch\<close> of the loop has no \<^verbatim>\<open>case\<close> for \<^verbatim>\<open>d\<close> (and \<^verbatim>\<open>RegexFlags\<close> no bit
  for it): \<^verbatim>\<open>d\<close> takes the \<^verbatim>\<open>default\<close> branch like any other identifier part. On
  \<^verbatim>\<open>/a/d\<close>, scanned with \<open>AllowRegExp\<close>, the token is \<open>Error\<close> and the one diagnostic is
  \<^verbatim>\<open>UnexpectedTokenRegExpFlag\<close>.
\<close>

theorem regexp_flag_d_is_rejected:
  "\<exists>p'. nextToken instanceCollaborators (create [47, 97, 47, 100]) {AllowRegExp} =
          Some (Error, p') \<and>
        diagnostics p' = [(UnexpectedTokenRegExpFlag, [])]"
  apply (simp add: nextToken_def scanSingleToken_def create_def)
  apply (subst scanSingleToken_loop.simps)
  apply (simp add: iteration_defs scanSingleToken_Divide_def scanRegularExpression_def ret_def
      scanRegularExpression_body.simps scanRegularExpression_flags.simps Let_def
      instanceCollaborators_def asciiIdentifierPart_def report_def)
  done

text \<open>
  C4 as amended: the flag loop knows the six flags \<^verbatim>\<open>g i m u y s\<close>, each accepted at most
  once. An identifier part that is none of the six (\<^verbatim>\<open>d\<close> included) reports
  \<^verbatim>\<open>UnexpectedTokenRegExpFlag\<close> and ends the scan with \<open>Error\<close>; one of the six whose bits
  are clear in the mask is accepted, its bits are set and the loop goes on; one of
  the six whose bits are all set already, as they are once it has been accepted,
  reports \<^verbatim>\<open>DuplicateRegExpFlag\<close> as the next diagnostic. Hence a run of flags that the
  loop passes without a diagnostic consists of distinct characters among the six. (What
  happens to \<^verbatim>\<open>s\<close> when only \<^verbatim>\<open>m\<close> or \<^verbatim>\<open>y\<close> has been seen, whose bits
  \<^verbatim>\<open>RegexFlags.DotAll = 0b1100\<close> shares, is left out of the statement.)
\<close>

theorem regexp_flags_accepted_once:
  "(isIdentifierPart E ch \<and>
    ch \<notin> Num ` {Chars_LowerG, Chars_LowerI, Chars_LowerM, Chars_LowerU, Chars_LowerY, Chars_LowerS} \<longrightarrow>
      scanRegularExpression_flags E ctx mask' ch p =
        Inl (report p ctx UnexpectedTokenRegExpFlag []))
   \<and> (isIdentifierPart E (Num c) \<and>
      c \<in> {Chars_LowerG, Chars_LowerI, Chars_LowerM, Chars_LowerU, Chars_LowerY, Chars_LowerS} \<and>
      mask' AND regexFlagBit c = 0 \<longrightarrow>
        scanRegularExpression_flags E ctx mask' (Num c) p =
          scanRegularExpression_flags E ctx (mask' OR regexFlagBit c)
            (nextCodePoint (advance p)) (advance p))
   \<and> (isIdentifierPart E (Num c) \<and>
      c \<in> {Chars_LowerG, Chars_LowerI, Chars_LowerM, Chars_LowerU, Chars_LowerY, Chars_LowerS} \<and>
      mask' AND regexFlagBit c = regexFlagBit c \<longrightarrow>
        (\<exists>a ds. diagnostics (case scanRegularExpression_flags E ctx mask' (Num c) p of
                               Inl q \<Rightarrow> q | Inr q \<Rightarrow> q) =
                 diagnostics p @ (DuplicateRegExpFlag, a) # ds))
   \<and> (scanRegularExpression_flags E ctx RegexFlags_Empty (nextCodePoint p) p = Inr p' \<and>
      diagnostics p' = diagnostics p \<and> cacheConsistent p \<longrightarrow>
        distinct (slice (source p) (index p) (index p')) \<and>
        set (slice (source p) (index p) (index p')) \<subseteq>
          {Chars_LowerG, Chars_LowerI, Chars_LowerM, Chars_LowerU, Chars_LowerY, Chars_LowerS})"
proof (intro conjI impI)
  assume "isIdentifierPart E ch \<and>
    ch \<notin> Num ` {Chars_LowerG, Chars_LowerI, Chars_LowerM, Chars_LowerU, Chars_LowerY, Chars_LowerS}"
  then show "scanRegularExpression_flags E ctx mask' ch p =
        Inl (report p ctx UnexpectedTokenRegExpFlag [])"
    using flags_unexpected [of E ch ctx mask' p] by simp
next
  assume "isIdentifierPart E (Num c) \<and>
      c \<in> {Chars_LowerG, Chars_LowerI, Chars_LowerM, Chars_LowerU, Chars_LowerY, Chars_LowerS} \<and>
      mask' AND regexFlagBit c = 0"
  then show "scanRegularExpression_flags E ctx mask' (Num c) p =
          scanRegularExpression_flags E ctx (mask' OR regexFlagBit c)
            (nextCodePoint (advance p)) (advance p)"
    using flags_accept [of E c mask' ctx p] by simp
next
  assume a: "isIdentifierPart E (Num c) \<and>
      c \<in> {Chars_LowerG, Chars_LowerI, Chars_LowerM, Chars_LowerU, Chars_LowerY, Chars_LowerS} \<and>
      mask' AND regexFlagBit c = regexFlagBit c"
  then have idp: "isIdentifierPart E (Num c)" and six: "c \<in> {103, 105, 109, 117, 121, 115}"
    and nz: "mask' AND regexFlagBit c \<noteq> 0"
    using flagBit_nonzero [of c] by auto
  show "\<exists>a ds. diagnostics (case scanRegularExpression_flags E ctx mask' (Num c) p of
                               Inl q \<Rightarrow> q | Inr q \<Rightarrow> q) =
                 diagnostics p @ (DuplicateRegExpFlag, a) # ds"
  proof (cases "c = 103")
    case False
    with six have "c \<in> {105, 109, 117, 121, 115}" by auto
    from flags_repeat_other [OF idp this nz, of ctx p] show ?thesis by auto
  next
    case True
    let ?q = "advance (report p ctx DuplicateRegExpFlag [''g''])"
    from nz True have "mask' AND 2 \<noteq> 0" by simp
    from flags_repeat_g [OF idp [unfolded True] this, of ctx p]
    have eq: "scanRegularExpression_flags E ctx mask' (Num c) p =
              scanRegularExpression_flags E ctx (mask' OR 2) (nextCodePoint ?q) ?q"
      using True by simp
    show ?thesis
    proof (cases "scanRegularExpression_flags E ctx (mask' OR 2) (nextCodePoint ?q) ?q")
      case (Inl pe)
      from flags_Inl [OF Inl] obtain ds where "diagnostics pe = diagnostics ?q @ ds" by blast
      with eq Inl show ?thesis by simp
    next
      case (Inr p2)
      from flags_Inr [OF Inr] obtain ds where "diagnostics p2 = diagnostics ?q @ ds" by blast
      with eq Inr show ?thesis by simp
    qed
  qed
next
  assume a: "scanRegularExpression_flags E ctx RegexFlags_Empty (nextCodePoint p) p = Inr p' \<and>
      diagnostics p' = diagnostics p \<and> cacheConsistent p"
  then have "nextCodePoint p = charCodeAt (source p) (index p)"
    by (simp add: cacheConsistent_def charCodeAt_def)
  from flags_clean_distinct [OF _ _ this] a
  show "distinct (slice (source p) (index p) (index p'))"
    and "set (slice (source p) (index p) (index p')) \<subseteq>
          {Chars_LowerG, Chars_LowerI, Chars_LowerM, Chars_LowerU, Chars_LowerY, Chars_LowerS}"
    by blast+
qed

theorem regexp_flags_accepted_once_witness:
  "isIdentifierPart instanceCollaborators (Num 100) \<and>
   Num 100 \<notin> Num ` {Chars_LowerG, Chars_LowerI, Chars_LowerM, Chars_LowerU, Chars_LowerY,
                      Chars_LowerS} \<and>
   scanRegularExpression_flags instanceCollaborators {} 0 (Num 100)
       (advance (advance (advance (create [47, 97, 47, 103, 105])))) =
     Inl (report (advance (advance (advance (create [47, 97, 47, 103, 105])))) {}
            UnexpectedTokenRegExpFlag []) \<and>
   isIdentifierPart instanceCollaborators (Num 105) \<and>
   (0 :: 32 word) AND regexFlagBit 105 = 0 \<and>
   scanRegularExpression_flags instanceCollaborators {} 0 (Num 105)
       (advance (advance (advance (create [47, 97, 47, 103, 105])))) =
     scanRegularExpression_flags instanceCollaborators {} (0 OR regexFlagBit 105)
       (nextCodePoint (advance (advance (advance (advance (create [47, 97, 47, 103, 105]))))))
       (advance (advance (advance (advance (create [47, 97, 47, 103, 105]))))) \<and>
   (1 :: 32 word) AND regexFlagBit 105 = regexFlagBit 105 \<and>
   (\<exists>a ds. diagnostics
        (case scanRegularExpression_flags instanceCollaborators {} 1 (Num 105)
                (advance (advance (advance (create [47, 97, 47, 103, 105])))) of
           Inl q \<Rightarrow> q | Inr q \<Rightarrow> q) =
      diagnostics (advance (advance (advance (create [47, 97, 47, 103, 105])))) @
        (DuplicateRegExpFlag, a) # ds) \<and>
   scanRegularExpression_flags instanceCollaborators {} RegexFlags_Empty
       (nextCodePoint (advance (advance (advance (create [47, 97, 47, 103, 105])))))
       (advance (advance (advance (create [47, 97, 47, 103, 105])))) =
     Inr (advance (advance (advance (advance (advance (create [47, 97, 47, 103, 105])))))) \<and>
   cacheConsistent (advance (advance (advance (create [47, 97, 47, 103, 105])))) \<and>
   distinct (slice [47, 97, 47, 103, 105] 3 5) \<and>
   set (slice [47, 97, 47, 103, 105] 3 5) \<subseteq>
     {Chars_LowerG, Chars_LowerI, Chars_LowerM, Chars_LowerU, Chars_LowerY, Chars_LowerS}"
proof -
  let ?I = instanceCollaborators
  let ?P = "advance (advance (advance (create [47, 97, 47, 103, 105])))"
  have d: "isIdentifierPart ?I (Num 100)" and i: "isIdentifierPart ?I (Num 105)"
    and g: "isIdentifierPart ?I (Num 103)" and n: "\<not> isIdentifierPart ?I NaN"
    by (simp_all add: instanceCollaborators_def asciiIdentifierPart_def)
  have dn: "Num 100 \<notin> Num ` {Chars_LowerG, Chars_LowerI, Chars_LowerM, Chars_LowerU,
      Chars_LowerY, Chars_LowerS}" by simp
  have m0: "(0 :: 32 word) AND regexFlagBit 105 = 0" by simp
  have m1: "(1 :: 32 word) AND regexFlagBit 105 = regexFlagBit 105" by simp
  have six: "(105 :: nat) \<in> {Chars_LowerG, Chars_LowerI, Chars_LowerM, Chars_LowerU,
      Chars_LowerY, Chars_LowerS}" by simp
  have cache: "cacheConsistent ?P" by (simp add: cacheConsistent_def create_def charCodeAt_def)
  have run: "scanRegularExpression_flags ?I {} RegexFlags_Empty (nextCodePoint ?P) ?P =
             Inr (advance (advance ?P))"
    using g i n by (simp add: flags_g flags_i flags_stop create_def charCodeAt_def)
  have clean: "diagnostics (advance (advance ?P)) = diagnostics ?P" by simp
  have src: "source ?P = [47, 97, 47, 103, 105]" "index ?P = 3" "index (advance (advance ?P)) = 5"
    by (simp_all add: create_def)
  note t = regexp_flags_accepted_once [where E = ?I and ctx = "{}" and p = ?P]
  from t [where ch = "Num 100" and mask' = 0] d dn
  have w1: "scanRegularExpression_flags ?I {} 0 (Num 100) ?P =
              Inl (report ?P {} UnexpectedTokenRegExpFlag [])" by blast
  from t [where c = 105 and mask' = 0] i six m0
  have w2: "scanRegularExpression_flags ?I {} 0 (Num 105) ?P =
     scanRegularExpression_flags ?I {} (0 OR regexFlagBit 105)
       (nextCodePoint (advance ?P)) (advance ?P)" by blast
  from t [where c = 105 and mask' = 1] i six m1
  have w3: "\<exists>a ds. diagnostics
        (case scanRegularExpression_flags ?I {} 1 (Num 105) ?P of Inl q \<Rightarrow> q | Inr q \<Rightarrow> q) =
      diagnostics ?P @ (DuplicateRegExpFlag, a) # ds" by blast
  from t [where p' = "advance (advance ?P)"] run clean cache
  have w4: "distinct (slice (source ?P) (index ?P) (index (advance (advance ?P)))) \<and>
        set (slice (source ?P) (index ?P) (index (advance (advance ?P)))) \<subseteq>
          {Chars_LowerG, Chars_LowerI, Chars_LowerM, Chars_LowerU, Chars_LowerY, Chars_LowerS}"
    by blast
  from w4 have w4': "distinct (slice [47, 97, 47, 103, 105] 3 5) \<and>
     set (slice [47, 97, 47, 103, 105] 3 5) \<subseteq>
       {Chars_LowerG, Chars_LowerI, Chars_LowerM, Chars_LowerU, Chars_LowerY, Chars_LowerS}"
    unfolding src .
  from d dn w1 i m0 w2 m1 w3 run cache w4' show ?thesis by blast
qed

text \<open>
  C5 (the code departs from the claim). The claim: with \<open>OptionsNext\<close>, \<^verbatim>\<open>?.\<close> is
  \<open>QuestionMarkPeriod\<close> only when the unit after the period is not a decimal digit.
  The code tests \<^verbatim>\<open>ch > Chars.Nine || ch <= Chars.Zero\<close>, which lets the digit 0
  through: on \<^verbatim>\<open>?.0\<close> the token is \<open>QuestionMarkPeriod\<close> (two units consumed), while on
  \<^verbatim>\<open>?.5\<close> it is \<open>QuestionMark\<close> (one unit consumed), for every value of the
  collaborators.
\<close>

theorem question_period_zero_is_optional_chain:
  "(\<exists>p'. scanSingleToken E (create [63, 46, 48]) (insert OptionsNext ctx) =
            Some (QuestionMarkPeriod, p') \<and> index p' = 2)
   \<and> (\<exists>p'. scanSingleToken E (create [63, 46, 53]) (insert OptionsNext ctx) =
            Some (QuestionMark, p') \<and> index p' = 1)"
proof
  show "\<exists>p'. scanSingleToken E (create [63, 46, 48]) (insert OptionsNext ctx) =
            Some (QuestionMarkPeriod, p') \<and> index p' = 2"
    apply (simp add: scanSingleToken_def create_def)
    apply (subst scanSingleToken_loop.simps)
    apply (simp add: iteration_defs scanSingleToken_QuestionMark_def)
    done
  show "\<exists>p'. scanSingleToken E (create [63, 46, 53]) (insert OptionsNext ctx) =
            Some (QuestionMark, p') \<and> index p' = 1"
    apply (simp add: scanSingleToken_def create_def)
    apply (subst scanSingleToken_loop.simps)
    apply (simp add: iteration_defs scanSingleToken_QuestionMark_def)
    done
qed

text \<open>
  C7 (corrected). The claim: \<^verbatim>\<open>nextCodePoint\<close> is \<^verbatim>\<open>source[index]\<close> inside the source and
  0 at its end. \<^verbatim>\<open>advance\<close> and the line-terminator code cache
  \<^verbatim>\<open>source.charCodeAt(index)\<close>, which at the end of the source is \<open>NaN\<close>, not 0: after
  \<^verbatim>\<open>advance\<close> on the one-unit source \<^verbatim>\<open>a\<close> the index equals the length and the cache
  holds \<open>NaN\<close>.
\<close>

theorem advance_at_end_caches_NaN:
  "index (advance (create [97])) = length (source (advance (create [97]))) \<and>
   nextCodePoint (advance (create [97])) = NaN \<and>
   nextCodePoint (advance (create [97])) \<noteq> Num 0"
  by (simp add: create_def charCodeAt_def)

text \<open>
  C7 as amended: \<^verbatim>\<open>advance\<close>, and the handling of LF, CR, LS and PS in
  \<^verbatim>\<open>scanSingleToken\<close>, leave \<^verbatim>\<open>nextCodePoint\<close> equal to \<^verbatim>\<open>source.charCodeAt(index)\<close>: the
  code unit \<^verbatim>\<open>source[index]\<close> while the index is inside the source, and \<open>NaN\<close> at and
  after its end (\<open>cacheConsistent\<close>), whatever the cache held before. The statement is
  about these operations only: the \<^verbatim>\<open><<=\<close> branch bumps the index without reading the
  source.
\<close>

theorem advance_and_line_terminators_restore_cache:
  "cacheConsistent (advance p) \<and>
   (nextCodePoint p \<in> Num ` {Chars_LineFeed, Chars_CarriageReturn, Chars_LineSeparator,
                               Chars_ParagraphSeparator} \<longrightarrow>
      (\<exists>l' p'. scanSingleToken_iteration E ctx isStartOfLine lastIsCR p = Continue l' p' \<and>
               index p' = index p + 1 \<and> cacheConsistent p'))"
proof
  show "cacheConsistent (advance p)"
    by (simp add: cacheConsistent_def charCodeAt_def)
  show "nextCodePoint p \<in> Num ` {Chars_LineFeed, Chars_CarriageReturn, Chars_LineSeparator,
                               Chars_ParagraphSeparator} \<longrightarrow>
      (\<exists>l' p'. scanSingleToken_iteration E ctx isStartOfLine lastIsCR p = Continue l' p' \<and>
               index p' = index p + 1 \<and> cacheConsistent p')"
  proof
    assume "nextCodePoint p \<in> Num ` {Chars_LineFeed, Chars_CarriageReturn, Chars_LineSeparator,
                               Chars_ParagraphSeparator}"
    then consider "nextCodePoint p = Num 10" | "nextCodePoint p = Num 13"
      | "nextCodePoint p = Num 0x2028" | "nextCodePoint p = Num 0x2029" by auto
    then show "\<exists>l' p'. scanSingleToken_iteration E ctx isStartOfLine lastIsCR p = Continue l' p' \<and>
               index p' = index p + 1 \<and> cacheConsistent p'"
    proof cases
      case 1
      then show ?thesis
        by (simp add: scanSingleToken_iteration_def scanSingleToken_LineFeed_def num_le_def
            toInt32_def firstCharKinds_def cacheConsistent_def charCodeAt_def Let_def)
    next
      case 2
      then show ?thesis
        by (simp add: scanSingleToken_iteration_def scanSingleToken_LineFeed_def
            scanSingleToken_CarriageReturn_def num_le_def
            toInt32_def firstCharKinds_def cacheConsistent_def charCodeAt_def Let_def)
    next
      case 3
      then show ?thesis
        by (simp add: scanSingleToken_iteration_def scanSingleToken_nonASCII_def num_le_def
            toInt32_def cacheConsistent_def charCodeAt_def Let_def)
    next
      case 4
      then show ?thesis
        by (simp add: scanSingleToken_iteration_def scanSingleToken_nonASCII_def num_le_def
            toInt32_def cacheConsistent_def charCodeAt_def Let_def)
    qed
  qed
qed

theorem advance_and_line_terminators_restore_cache_witness:
  "cacheConsistent (advance (create [13, 10])) \<and>
   nextCodePoint (create [13, 10]) \<in> Num ` {Chars_LineFeed, Chars_CarriageReturn,
       Chars_LineSeparator, Chars_ParagraphSeparator} \<and>
   (\<exists>l' p'. scanSingleToken_iteration instanceCollaborators {} True 0 (create [13, 10]) =
              Continue l' p' \<and>
            index p' = index (create [13, 10]) + 1 \<and> cacheConsistent p')"
proof -
  have h: "nextCodePoint (create [13, 10]) \<in> Num ` {Chars_LineFeed, Chars_CarriageReturn,
       Chars_LineSeparator, Chars_ParagraphSeparator}"
    by (simp add: create_def charCodeAt_def)
  from advance_and_line_terminators_restore_cache
         [of "create [13, 10]" instanceCollaborators "{}" True 0] h
  show ?thesis by blast
qed

text \<open>
  C8 (the code departs from the claim). The claim: above \<open>0x7E\<close> the scanner skips
  exactly LS, PS, NBSP, BOM and the category Zs. \<^verbatim>\<open>isExoticECMAScriptWhitespace\<close> also
  accepts U+0085 (\<^verbatim>\<open>Chars.NextLine\<close>, a control character) and U+200B
  (\<^verbatim>\<open>Chars.ZeroWidthSpace\<close>, a format character, the upper end of the range test);
  neither is in the list of its own comment. Whenever the table does not make them
  identifier starts, \<^verbatim>\<open>nextToken\<close> on the source U+200B U+0085 skips both units and
  returns \<open>EndOfSource\<close> without a diagnostic.
\<close>

theorem exotic_whitespace_accepts_NEL_and_ZWSP:
  assumes "lookupBit E 0x200B 34816 = 0" and "lookupBit E 0x85 34816 = 0"
  shows "isExoticECMAScriptWhitespace (Num 0x200B) \<and> isExoticECMAScriptWhitespace (Num 0x85) \<and>
         (\<exists>p'. nextToken E (create [0x200B, 0x85]) ctx = Some (EndOfSource, p') \<and>
                index p' = 2 \<and> diagnostics p' = [])"
proof (intro conjI)
  show "isExoticECMAScriptWhitespace (Num 0x200B)"
    by (simp add: isExoticECMAScriptWhitespace_def num_le_def num_ge_def)
  show "isExoticECMAScriptWhitespace (Num 0x85)"
    by (simp add: isExoticECMAScriptWhitespace_def num_le_def num_ge_def)
  show "\<exists>p'. nextToken E (create [0x200B, 0x85]) ctx = Some (EndOfSource, p') \<and>
                index p' = 2 \<and> diagnostics p' = []"
    using assms
    apply (simp add: nextToken_def scanSingleToken_def create_def)
    apply (subst scanSingleToken_loop.simps)
    apply (simp add: iteration_defs scanSingleToken_nonASCII_def
        isExoticECMAScriptWhitespace_def)
    apply (subst scanSingleToken_loop.simps)
    apply (simp add: iteration_defs scanSingleToken_nonASCII_def
        isExoticECMAScriptWhitespace_def)
    apply (subst scanSingleToken_loop.simps)
    apply (simp add: iteration_defs)
    done
qed

theorem exotic_whitespace_accepts_NEL_and_ZWSP_witness:
  "lookupBit instanceCollaborators 0x200B 34816 = 0 \<and>
   lookupBit instanceCollaborators 0x85 34816 = 0 \<and>
   isExoticECMAScriptWhitespace (Num 0x200B) \<and> isExoticECMAScriptWhitespace (Num 0x85) \<and>
   (\<exists>p'. nextToken instanceCollaborators (create [0x200B, 0x85]) {} = Some (EndOfSource, p') \<and>
          index p' = 2 \<and> diagnostics p' = [])"
proof -
  have h1: "lookupBit instanceCollaborators 0x200B 34816 = 0"
    by (simp add: lookupBit_def instanceCollaborators_def)
  have h2: "lookupBit instanceCollaborators 0x85 34816 = 0"
    by (simp add: lookupBit_def instanceCollaborators_def)
  show ?thesis
    using h1 h2 exotic_whitespace_accepts_NEL_and_ZWSP [OF h1 h2, of "{}"] by simp
qed

text \<open>
  C9 (confirmed). In \<^verbatim>\<open>scanRegularExpression\<close>, once the body has been delimited, let the
  flag loop come to a flag that it has already read, anywhere among the flags and
  whatever the other flags read so far. When that flag is \<^verbatim>\<open>g\<close>,
  \<^verbatim>\<open>DuplicateRegExpFlag\<close> is reported and the loop goes on from the next unit with the mask
  it had; whenever the rest of the loop ends without \<open>Error\<close>, the function returns
  \<open>RegularExpression\<close> with that diagnostic recorded. When that flag is \<^verbatim>\<open>i\<close>, \<^verbatim>\<open>m\<close>, \<^verbatim>\<open>u\<close>,
  \<^verbatim>\<open>y\<close> or \<^verbatim>\<open>s\<close>, the function returns \<open>Error\<close> at once, in the state in which
  \<^verbatim>\<open>DuplicateRegExpFlag\<close> has just been reported.
\<close>

theorem duplicate_g_reports_and_continues:
  assumes body: "scanRegularExpression_body ctx RegexState_Empty p = Inr p1"
    and reach: "scanRegularExpression_flags_reaches E ctx p1 mask' (Num c) q"
    and idp: "isIdentifierPart E (Num c)"
    and dup: "c \<in> set (slice (source p1) (index p1) (index q))"
  shows "(c = Chars_LowerG \<longrightarrow>
           (let q' = advance (report q ctx DuplicateRegExpFlag [''g'']) in
            scanRegularExpression_flags_reaches E ctx p1 mask' (nextCodePoint q') q' \<and>
            (\<forall>p2. scanRegularExpression_flags E ctx mask' (nextCodePoint q') q' = Inr p2 \<longrightarrow>
               fst (scanRegularExpression E p ctx) = RegularExpression \<and>
               (DuplicateRegExpFlag, [''g'']) \<in>
                 set (diagnostics (snd (scanRegularExpression E p ctx))))))
       \<and> (c \<in> {Chars_LowerI, Chars_LowerM, Chars_LowerU, Chars_LowerY, Chars_LowerS} \<longrightarrow>
            (\<exists>a. scanRegularExpression E p ctx = (Error, report q ctx DuplicateRegExpFlag a)))"
proof -
  note inv = flags_reaches_invariant [OF reach body_Inr_cache [OF body]]
  from inv dup have six: "c \<in> {103, 105, 109, 117, 121, 115}"
    and bits: "mask' AND regexFlagBit c = regexFlagBit c" by auto
  from bits flagBit_nonzero [OF six] have nz: "mask' AND regexFlagBit c \<noteq> 0" by simp
  note whole = flags_reaches_result [OF reach]
  show ?thesis
  proof (intro conjI impI)
    assume g: "c = Chars_LowerG"
    define q' where "q' = advance (report q ctx DuplicateRegExpFlag [''g''])"
    from g bits have b2: "mask' AND 2 = 2" by simp
    then have keep: "mask' OR 2 = mask'" by (rule word_and_or_same)
    from b2 have "mask' AND 2 \<noteq> 0" by simp
    with idp g keep have "scanRegularExpression_flags_next E ctx mask' (Num c) q = Some (mask', q')"
      by (simp add: scanRegularExpression_flags_next_def q'_def)
    from scanRegularExpression_flags_reaches.iterate [OF reach this]
    have reach': "scanRegularExpression_flags_reaches E ctx p1 mask' (nextCodePoint q') q'" .
    have fin: "fst (scanRegularExpression E p ctx) = RegularExpression \<and>
               (DuplicateRegExpFlag, [''g'']) \<in>
                 set (diagnostics (snd (scanRegularExpression E p ctx)))"
      if r: "scanRegularExpression_flags E ctx mask' (nextCodePoint q') q' = Inr p2" for p2
    proof -
      from flags_reaches_result [OF reach'] r
      have fl: "scanRegularExpression_flags E ctx 0 (nextCodePoint p1) p1 = Inr p2" by simp
      from flags_Inr [OF r] obtain ds where "diagnostics p2 = diagnostics q' @ ds" by blast
      then have "(DuplicateRegExpFlag, [''g'']) \<in> set (diagnostics p2)" by (simp add: q'_def)
      with body fl show ?thesis
        by (simp add: scanRegularExpression_def validate_def Let_def split: prod.splits)
    qed
    from reach' fin
    show "let q' = advance (report q ctx DuplicateRegExpFlag [''g'']) in
            scanRegularExpression_flags_reaches E ctx p1 mask' (nextCodePoint q') q' \<and>
            (\<forall>p2. scanRegularExpression_flags E ctx mask' (nextCodePoint q') q' = Inr p2 \<longrightarrow>
               fst (scanRegularExpression E p ctx) = RegularExpression \<and>
               (DuplicateRegExpFlag, [''g'']) \<in>
                 set (diagnostics (snd (scanRegularExpression E p ctx))))"
      unfolding q'_def Let_def by blast
  next
    assume o: "c \<in> {Chars_LowerI, Chars_LowerM, Chars_LowerU, Chars_LowerY, Chars_LowerS}"
    from flags_repeat_other [OF idp o nz, of ctx q] obtain a where
      "scanRegularExpression_flags E ctx mask' (Num c) q =
         Inl (report q ctx DuplicateRegExpFlag a)" ..
    with whole have "scanRegularExpression_flags E ctx 0 (nextCodePoint p1) p1 =
         Inl (report q ctx DuplicateRegExpFlag a)" by simp
    with body have "scanRegularExpression E p ctx = (Error, report q ctx DuplicateRegExpFlag a)"
      by (simp add: scanRegularExpression_def)
    then show "\<exists>a. scanRegularExpression E p ctx = (Error, report q ctx DuplicateRegExpFlag a)" ..
  qed
qed

theorem duplicate_g_reports_and_continues_witness:
  "scanRegularExpression_body {} RegexState_Empty (advance (create [47, 97, 47, 103, 105, 103])) =
     Inr (advance (advance (advance (create [47, 97, 47, 103, 105, 103])))) \<and>
   scanRegularExpression_flags_reaches instanceCollaborators {}
     (advance (advance (advance (create [47, 97, 47, 103, 105, 103])))) 3 (Num 103)
     (advance (advance (advance (advance (advance (create [47, 97, 47, 103, 105, 103])))))) \<and>
   isIdentifierPart instanceCollaborators (Num 103) \<and>
   103 \<in> set (slice [47, 97, 47, 103, 105, 103] 3 5) \<and>
   fst (scanRegularExpression instanceCollaborators (advance (create [47, 97, 47, 103, 105, 103]))
          {}) = RegularExpression \<and>
   (DuplicateRegExpFlag, [''g'']) \<in> set (diagnostics (snd (scanRegularExpression
       instanceCollaborators (advance (create [47, 97, 47, 103, 105, 103])) {}))) \<and>
   scanRegularExpression_body {} RegexState_Empty (advance (create [47, 97, 47, 105, 109, 109])) =
     Inr (advance (advance (advance (create [47, 97, 47, 105, 109, 109])))) \<and>
   scanRegularExpression_flags_reaches instanceCollaborators {}
     (advance (advance (advance (create [47, 97, 47, 105, 109, 109])))) 5 (Num 109)
     (advance (advance (advance (advance (advance (create [47, 97, 47, 105, 109, 109])))))) \<and>
   isIdentifierPart instanceCollaborators (Num 109) \<and>
   109 \<in> set (slice [47, 97, 47, 105, 109, 109] 3 5) \<and>
   fst (scanRegularExpression instanceCollaborators (advance (create [47, 97, 47, 105, 109, 109]))
          {}) = Error"
proof -
  let ?G = "create [47, 97, 47, 103, 105, 103]" and ?M = "create [47, 97, 47, 105, 109, 109]"
  let ?qG = "advance (advance (advance (advance (advance ?G))))"
  have bg: "scanRegularExpression_body {} 0 (advance ?G) = Inr (advance (advance (advance ?G)))"
    by (rule body_a_slash)
  have bm: "scanRegularExpression_body {} 0 (advance ?M) = Inr (advance (advance (advance ?M)))"
    by (rule body_a_slash)
  have idg: "isIdentifierPart instanceCollaborators (Num 103)"
    and idm: "isIdentifierPart instanceCollaborators (Num 109)"
    and n: "\<not> isIdentifierPart instanceCollaborators NaN"
    by (simp_all add: instanceCollaborators_def asciiIdentifierPart_def)
  have sg: "103 \<in> set (slice [47, 97, 47, 103, 105, 103] 3 5)"
    and sm: "109 \<in> set (slice [47, 97, 47, 105, 109, 109] 3 5)"
    by (simp_all add: slice_def)
  have dg: "103 \<in> set (slice (source (advance (advance (advance ?G))))
                (index (advance (advance (advance ?G)))) (index ?qG))"
    by (simp add: slice_def create_def)
  have dm: "109 \<in> set (slice (source (advance (advance (advance ?M))))
                (index (advance (advance (advance ?M))))
                (index (advance (advance (advance (advance (advance ?M)))))))"
    by (simp add: slice_def create_def)
  have last: "nextCodePoint (advance (report ?qG {} DuplicateRegExpFlag [''g''])) = NaN"
    by (simp add: create_def charCodeAt_def)
  have stop: "scanRegularExpression_flags instanceCollaborators {} 3
      (nextCodePoint (advance (report ?qG {} DuplicateRegExpFlag [''g''])))
      (advance (report ?qG {} DuplicateRegExpFlag [''g''])) =
      Inr (advance (report ?qG {} DuplicateRegExpFlag [''g'']))"
    unfolding last using n by (rule flags_stop)
  from duplicate_g_reports_and_continues [OF bg instance_flags_reach_gig idg dg] stop
  have g: "fst (scanRegularExpression instanceCollaborators (advance ?G) {}) = RegularExpression \<and>
    (DuplicateRegExpFlag, [''g'']) \<in> set (diagnostics (snd (scanRegularExpression
       instanceCollaborators (advance ?G) {})))"
    by (simp add: Let_def)
  from duplicate_g_reports_and_continues [OF bm instance_flags_reach_imm idm dm]
  have m: "fst (scanRegularExpression instanceCollaborators (advance ?M) {}) = Error" by auto
  from bg bm instance_flags_reach_gig instance_flags_reach_imm idg idm sg sm g m
  show ?thesis by blast
qed


text \<open>
  C10 (confirmed). \<^verbatim>\<open>scanSingleToken\<close> terminates on every input: an iteration of its
  loop that does not return leaves \<^verbatim>\<open>parser.index\<close> strictly larger (and
  \<^verbatim>\<open>parser.length\<close> as it was), the call returns a token, and with the index at or past
  \<^verbatim>\<open>parser.length\<close> it returns \<open>EndOfSource\<close> at once. The loop hands the state to the
  comment skippers, which are not among the sources: they are taken never to move the
  index backwards and to leave \<^verbatim>\<open>parser.length\<close> alone.
\<close>

theorem scanSingleToken_terminates:
  assumes single: "\<And>q. index q \<le> index (skipSingleLineComment E q) \<and>
                       length' (skipSingleLineComment E q) = length' q"
    and multi: "\<And>q c. index q \<le> index (snd (skipMultiLineComment E q c)) \<and>
                       length' (snd (skipMultiLineComment E q c)) = length' q"
  shows "(\<forall>sol l q l' q'. scanSingleToken_iteration E ctx sol l q = Continue l' q' \<longrightarrow>
            index q < index q' \<and> length' q' = length' q)
       \<and> (\<exists>r. scanSingleToken E p ctx = Some r)
       \<and> (length' p \<le> index p \<longrightarrow> scanSingleToken E p ctx = Some (EndOfSource, p))"
proof (intro conjI allI impI)
  fix sol l q l' q'
  assume "scanSingleToken_iteration E ctx sol l q = Continue l' q'"
  from iteration_Continue_index [OF single multi this]
  show "index q < index q'" and "length' q' = length' q" by simp_all
next
  show "\<exists>r. scanSingleToken E p ctx = Some r"
    unfolding scanSingleToken_def by (rule loop_returns [OF single multi])
next
  assume "length' p \<le> index p"
  then show "scanSingleToken E p ctx = Some (EndOfSource, p)"
    unfolding scanSingleToken_def by (subst scanSingleToken_loop.simps) simp
qed

theorem scanSingleToken_terminates_witness:
  "(\<forall>q. index q \<le> index (skipSingleLineComment instanceCollaborators q) \<and>
        length' (skipSingleLineComment instanceCollaborators q) = length' q)
   \<and> (\<forall>q c. index q \<le> index (snd (skipMultiLineComment instanceCollaborators q c)) \<and>
        length' (snd (skipMultiLineComment instanceCollaborators q c)) = length' q)
   \<and> (\<exists>r. scanSingleToken instanceCollaborators (create [32, 47, 47, 120, 10, 47, 42, 120, 42, 47, 59]) {} = Some r)
   \<and> scanSingleToken instanceCollaborators (create []) {} = Some (EndOfSource, create [])"
proof -
  note t = scanSingleToken_terminates [of instanceCollaborators, OF instance_single instance_multi]
  have "\<exists>r. scanSingleToken instanceCollaborators (create [32, 47, 47, 120, 10, 47, 42, 120, 42, 47, 59]) {} = Some r"
    using t [of "{}" "create [32, 47, 47, 120, 10, 47, 42, 120, 42, 47, 59]"] by blast
  moreover have "scanSingleToken instanceCollaborators (create []) {} = Some (EndOfSource, create [])"
    using t [of "{}" "create []"] by (simp add: create_def)
  ultimately show ?thesis using instance_single instance_multi by blast
qed

end
